theory Spec2Isabelle
  imports Complex_Main "HOL-Library.Multiset"
begin

section \<open>JavaScript values of a request body\<close>

text \<open>
  The handlers read fields of the parsed JSON body and test them with \<open>!x\<close>, \<open>x || y\<close> and
  \<open>Array.isArray\<close>. A value is one of the JSON shapes, or \<open>undefined\<close> for a field that
  is not there.
\<close>

datatype jsval =
    Undefined
  | Null
  | JBool bool
  | JNum rat
  | JStr string
  | JArr "jsval list"
  | JObj "(string \<times> jsval) list"

text \<open>JavaScript truthiness: the operand of \<open>!\<close> and of \<open>||\<close>.\<close>

fun truthy :: "jsval \<Rightarrow> bool" where
  "truthy Undefined = False"
| "truthy Null = False"
| "truthy (JBool b) = b"
| "truthy (JNum n) = (n \<noteq> 0)"
| "truthy (JStr s) = (s \<noteq> [])"
| "truthy (JArr xs) = True"
| "truthy (JObj fs) = True"

definition js_or :: "jsval \<Rightarrow> jsval \<Rightarrow> jsval" where
  "js_or a b = (if truthy a then a else b)"

fun isArray :: "jsval \<Rightarrow> bool" where
  "isArray (JArr xs) = True"
| "isArray v = False"

text \<open>
  Property access \<open>v.name\<close>: an object gives the field or \<open>undefined\<close>; the other
  non-nullish values have none of the fields read here. On \<open>undefined\<close> and \<open>null\<close> the
  access throws a TypeError, which \<open>destructurable\<close> tells apart.
\<close>

fun field :: "jsval \<Rightarrow> string \<Rightarrow> jsval" where
  "field (JObj fs) name = (case map_of fs name of Some v \<Rightarrow> v | None \<Rightarrow> Undefined)"
| "field v name = Undefined"

fun destructurable :: "jsval \<Rightarrow> bool" where
  "destructurable Undefined = False"
| "destructurable Null = False"
| "destructurable v = True"

text \<open>The validation of \<open>POST /send-email\<close>, the same in every server.\<close>

definition missing_fields :: "jsval \<Rightarrow> bool" where
  "missing_fields body \<longleftrightarrow>
     \<not> truthy (field body ''to'') \<or> \<not> truthy (field body ''subject'') \<or>
     (\<not> truthy (field body ''text'') \<and> \<not> truthy (field body ''html''))"

section \<open>The mail transport\<close>

text \<open>
  The \<open>to\<close> of a message is \<open>Array.isArray(to) ? to.join(", ") : to\<close> in the single-mail
  handlers and the recipient itself in the bulk handler. \<open>Joined xs\<close> stands for the string
  \<open>xs.join(", ")\<close>.
\<close>

datatype addressee = Plain jsval | Joined "jsval list"

fun join_if_array :: "jsval \<Rightarrow> addressee" where
  "join_if_array (JArr xs) = Joined xs"
| "join_if_array v = Plain v"

record mail_options =
  mail_from :: jsval
  mail_to :: addressee
  mail_subject :: jsval
  mail_text :: jsval
  mail_html :: jsval

text \<open>
  \<open>transporter.sendMail\<close> either fulfils with an \<open>info\<close> object, of which the code reads
  \<open>messageId\<close>, or rejects with an error, of which the code reads \<open>message\<close> and
  \<open>responseCode\<close> (absent on errors that carry no SMTP reply).
\<close>

record send_error =
  message :: string
  responseCode :: "int option"

datatype send_outcome = Delivered string | Failed send_error

text \<open>\<open>String.prototype.includes\<close>.\<close>

fun starts_with :: "string \<Rightarrow> string \<Rightarrow> bool" where
  "starts_with s [] = True"
| "starts_with [] (c # cs) = False"
| "starts_with (x # xs) (c # cs) = (x = c \<and> starts_with xs cs)"

fun str_includes :: "string \<Rightarrow> string \<Rightarrow> bool" where
  "str_includes [] sub = (sub = [])"
| "str_includes (x # xs) sub = (starts_with (x # xs) sub \<or> str_includes xs sub)"

text \<open>
  The test of the \<open>catch\<close> block in \<open>processEmailQueue\<close> (server with a promise per job):
  \<^verbatim>\<open>error.responseCode === 421 || error.message.includes("421") || error.message.includes("rate")\<close>
\<close>

definition is_rate_limit_error :: "send_error \<Rightarrow> bool" where
  "is_rate_limit_error error \<longleftrightarrow>
     responseCode error = Some 421 \<or> str_includes (message error) ''421'' \<or> str_includes (message error) ''rate''"

section \<open>The rate-limited queue with a promise per job\<close>

type_synonym time = int

text \<open>
  A job as \<open>queueEmail\<close> builds it. \<open>resolve\<close> and \<open>reject\<close> are the two functions of the
  promise that \<open>queueEmail\<close> returns; the model names the promise by its number of creation.
\<close>

record emailJob =
  job_id :: rat
  mailOptions :: mail_options
  promise :: nat
  timestamp :: time

text \<open>What a promise was settled with: the argument of \<open>resolve\<close> or of \<open>reject\<close>.\<close>

datatype settlement =
    Resolved string
  | Rejected string "int option"

text \<open>
  \<open>processEmailQueue\<close> is an async function: an activation of it runs until an \<open>await\<close>,
  and is resumed by the timer or by the transport. An activation that has not returned is
  suspended at one of its three awaits: the rate-limit wait (holding the job it shifted, until
  the timer is due), the send (holding the job), or the retry delay.
\<close>

datatype loop_pc =
    AwaitRateLimit emailJob time
  | AwaitSendMail emailJob
  | AwaitRetryDelay time

text \<open>One call of \<open>transporter.sendMail\<close> by the drain loop: when, the value of
  \<open>lastEmailTime\<close> then, and the job.\<close>

record invocation =
  invokedAt :: time
  lastSuccess :: time
  sentJob :: emailJob

text \<open>
  The module's variables \<open>emailQueue\<close>, \<open>isProcessingQueue\<close>, \<open>lastEmailTime\<close>, with the
  activations of \<open>processEmailQueue\<close> that have not returned, the calls of \<open>resolve\<close> and
  \<open>reject\<close> made so far, the calls of \<open>sendMail\<close> made by the loop so far, and the number of
  promises created.
\<close>

record queue_state =
  emailQueue :: "emailJob list"
  isProcessingQueue :: bool
  lastEmailTime :: time
  loops :: "loop_pc list"
  settlements :: "(nat \<times> settlement) list"
  sendLog :: "invocation list"
  promises :: nat

record config =
  SMTP_RATE_LIMIT :: int
  RETRY_DELAY :: int

definition initial :: queue_state where
  "initial = \<lparr>emailQueue = [], isProcessingQueue = False, lastEmailTime = 0, loops = [],
              settlements = [], sendLog = [], promises = 0\<rparr>"

definition sendMail :: "time \<Rightarrow> emailJob \<Rightarrow> queue_state \<Rightarrow> queue_state" where
  "sendMail now emailJob s =
     s\<lparr>sendLog := sendLog s @
        [\<lparr>invokedAt = now, lastSuccess = lastEmailTime s, sentJob = emailJob\<rparr>]\<rparr>"

text \<open>
  From the loop test to the next await. With the queue empty the loop ends, the flag is
  cleared and the activation returns (\<open>None\<close>). Otherwise the front job is shifted; if less
  than \<open>SMTP_RATE_LIMIT\<close> ms have passed since \<open>lastEmailTime\<close> the activation waits for the
  rest, else it calls \<open>sendMail\<close> at once.
\<close>

definition loop_head :: "config \<Rightarrow> time \<Rightarrow> queue_state \<Rightarrow> queue_state \<times> loop_pc option" where
  "loop_head cfg now s =
     (case emailQueue s of
        [] \<Rightarrow> (s\<lparr>isProcessingQueue := False\<rparr>, None)
      | emailJob # rest \<Rightarrow>
          (let timeSinceLastEmail = now - lastEmailTime s in
           if timeSinceLastEmail < SMTP_RATE_LIMIT cfg
           then (s\<lparr>emailQueue := rest\<rparr>,
                 Some (AwaitRateLimit emailJob (now + (SMTP_RATE_LIMIT cfg - timeSinceLastEmail))))
           else (sendMail now emailJob (s\<lparr>emailQueue := rest\<rparr>), Some (AwaitSendMail emailJob))))"

text \<open>The \<open>try\<close> block after \<open>sendMail\<close> has fulfilled.\<close>

definition send_fulfilled :: "time \<Rightarrow> emailJob \<Rightarrow> string \<Rightarrow> queue_state \<Rightarrow> queue_state" where
  "send_fulfilled now emailJob messageId s =
     s\<lparr>lastEmailTime := now,
       settlements := settlements s @ [(promise emailJob, Resolved messageId)]\<rparr>"

text \<open>
  The \<open>catch\<close> block. The result says whether the block ended in \<open>continue\<close> after
  starting the retry delay (\<open>True\<close>) or fell through to the loop test (\<open>False\<close>).
\<close>

definition catch_error :: "emailJob \<Rightarrow> send_error \<Rightarrow> queue_state \<Rightarrow> queue_state \<times> bool" where
  "catch_error emailJob error s =
     (if is_rate_limit_error error
      then (s\<lparr>emailQueue := emailJob # emailQueue s\<rparr>, True)
      else (s\<lparr>settlements := settlements s @
                [(promise emailJob, Rejected (message error) (responseCode error))]\<rparr>, False))"

text \<open>From the settling of \<open>sendMail\<close> to the next await.\<close>

definition after_send ::
  "config \<Rightarrow> time \<Rightarrow> emailJob \<Rightarrow> send_outcome \<Rightarrow> queue_state \<Rightarrow> queue_state \<times> loop_pc option" where
  "after_send cfg now emailJob outcome s =
     (case outcome of
        Delivered messageId \<Rightarrow> loop_head cfg now (send_fulfilled now emailJob messageId s)
      | Failed error \<Rightarrow>
          (case catch_error emailJob error s of
             (s', True) \<Rightarrow> (s', Some (AwaitRetryDelay (now + RETRY_DELAY cfg)))
           | (s', False) \<Rightarrow> loop_head cfg now s'))"

text \<open>
  A call of \<open>processEmailQueue\<close>: the guard, then the flag, then the loop up to its first
  await, where the new activation is suspended.
\<close>

definition processEmailQueue :: "config \<Rightarrow> time \<Rightarrow> queue_state \<Rightarrow> queue_state" where
  "processEmailQueue cfg now s =
     (if isProcessingQueue s \<or> emailQueue s = [] then s
      else (case loop_head cfg now (s\<lparr>isProcessingQueue := True\<rparr>) of
              (s', None) \<Rightarrow> s'
            | (s', Some pc) \<Rightarrow> s'\<lparr>loops := loops s' @ [pc]\<rparr>))"

text \<open>
  \<open>queueEmail\<close>: a new promise, the job pushed, and the loop started when the flag is
  clear. \<open>now\<close> is \<open>Date.now()\<close> and \<open>rnd\<close> is \<open>Math.random()\<close>. The result is the promise.
\<close>

definition queueEmail ::
  "config \<Rightarrow> time \<Rightarrow> rat \<Rightarrow> mail_options \<Rightarrow> queue_state \<Rightarrow> nat \<times> queue_state" where
  "queueEmail cfg now rnd mo s =
     (let emailJob = \<lparr>job_id = of_int now + rnd, mailOptions = mo, promise = promises s,
                       timestamp = now\<rparr>;
          s1 = s\<lparr>promises := Suc (promises s), emailQueue := emailQueue s @ [emailJob]\<rparr>
      in (promise emailJob, if \<not> isProcessingQueue s1 then processEmailQueue cfg now s1 else s1))"

text \<open>
  What happens to the server, each with the value \<open>Date.now()\<close> has while the code runs:
  a call of \<open>queueEmail\<close>, the firing of the timer an activation waits for, and the settling
  of the \<open>sendMail\<close> an activation waits for. Activations are named by their position in
  \<open>loops\<close>.
\<close>

datatype event =
    QueueEmail time rat mail_options
  | TimerFired nat time
  | SendMailSettled nat time send_outcome

definition suspend :: "nat \<Rightarrow> queue_state \<times> loop_pc option \<Rightarrow> queue_state" where
  "suspend i r =
     (case r of
        (s, Some pc) \<Rightarrow> s\<lparr>loops := (loops s)[i := pc]\<rparr>
      | (s, None) \<Rightarrow> s\<lparr>loops := take i (loops s) @ drop (Suc i) (loops s)\<rparr>)"

text \<open>
  One event. \<open>None\<close> is an event that cannot happen in the state: no such activation, an
  activation that waits for something else, or a timer before it is due.
\<close>

fun step :: "config \<Rightarrow> event \<Rightarrow> queue_state \<Rightarrow> queue_state option" where
  "step cfg (QueueEmail now rnd mo) s = Some (snd (queueEmail cfg now rnd mo s))"
| "step cfg (TimerFired i now) s =
     (if i < length (loops s) then
        (case loops s ! i of
           AwaitRateLimit emailJob due \<Rightarrow>
             if due \<le> now then Some (suspend i (sendMail now emailJob s, Some (AwaitSendMail emailJob)))
             else None
         | AwaitSendMail emailJob \<Rightarrow> None
         | AwaitRetryDelay due \<Rightarrow>
             if due \<le> now then Some (suspend i (loop_head cfg now s)) else None)
      else None)"
| "step cfg (SendMailSettled i now outcome) s =
     (if i < length (loops s) then
        (case loops s ! i of
           AwaitSendMail emailJob \<Rightarrow> Some (suspend i (after_send cfg now emailJob outcome s))
         | AwaitRateLimit emailJob due \<Rightarrow> None
         | AwaitRetryDelay due \<Rightarrow> None)
      else None)"

fun run :: "config \<Rightarrow> event list \<Rightarrow> queue_state \<Rightarrow> queue_state option" where
  "run cfg [] s = Some s"
| "run cfg (e # es) s = (case step cfg e s of None \<Rightarrow> None | Some s' \<Rightarrow> run cfg es s')"

text \<open>
  The time of the last delivery among the events, or \<open>t\<close> when there is none: a send that
  settles with a delivery is the only event that counts.
\<close>

fun delivered_at :: "event \<Rightarrow> time option" where
  "delivered_at (SendMailSettled i now (Delivered messageId)) = Some now"
| "delivered_at e = None"

fun last_delivery :: "event list \<Rightarrow> time \<Rightarrow> time" where
  "last_delivery [] t = t"
| "last_delivery (e # es) t =
     last_delivery es (case delivered_at e of Some now \<Rightarrow> now | None \<Rightarrow> t)"

text \<open>\<open>GET /queue-status\<close>.\<close>

record queue_status_reply =
  queueLength :: nat
  isProcessing :: bool
  reportedLastEmailTime :: time
  rateLimitMs :: int

definition queue_status :: "config \<Rightarrow> queue_state \<Rightarrow> queue_status_reply" where
  "queue_status cfg s =
     \<lparr>queueLength = length (emailQueue s), isProcessing = isProcessingQueue s,
      reportedLastEmailTime = lastEmailTime s, rateLimitMs = SMTP_RATE_LIMIT cfg\<rparr>"

subsection \<open>Jobs in flight, and what holds in every state the server reaches\<close>

text \<open>
  \<open>single_loop\<close>: at most one activation, the flag set exactly when there is one, and an
  empty queue when there is none. \<open>promises_ok\<close>: the promises created are exactly those of
  the jobs queued, in flight and settled, each once. \<open>rate_gate\<close>: every call of the
  transport came at least \<open>SMTP_RATE_LIMIT\<close> ms after the \<open>lastEmailTime\<close> of its moment, and
  a pending rate-limit timer is due no earlier than that.
\<close>

text \<open>The job an activation holds: shifted off the queue, neither settled nor put back.\<close>

fun held :: "loop_pc \<Rightarrow> emailJob list" where
  "held (AwaitRateLimit emailJob due) = [emailJob]"
| "held (AwaitSendMail emailJob) = [emailJob]"
| "held (AwaitRetryDelay due) = []"

definition in_flight :: "queue_state \<Rightarrow> emailJob list" where
  "in_flight s = concat (map held (loops s))"

definition single_loop :: "queue_state \<Rightarrow> bool" where
  "single_loop s \<longleftrightarrow>
     length (loops s) \<le> 1 \<and> (isProcessingQueue s \<longleftrightarrow> loops s \<noteq> []) \<and>
     (loops s = [] \<longrightarrow> emailQueue s = [])"

text \<open>The promises of the queued jobs, of the jobs in flight, and the settled ones.\<close>

definition known_promises :: "queue_state \<Rightarrow> nat list" where
  "known_promises s =
     map promise (emailQueue s) @ map promise (in_flight s) @ map fst (settlements s)"

definition promises_ok :: "queue_state \<Rightarrow> bool" where
  "promises_ok s \<longleftrightarrow> mset (known_promises s) = mset [0..<promises s]"

definition rate_gate :: "config \<Rightarrow> queue_state \<Rightarrow> bool" where
  "rate_gate cfg s \<longleftrightarrow>
     (\<forall>i \<in> set (sendLog s). SMTP_RATE_LIMIT cfg \<le> invokedAt i - lastSuccess i) \<and>
     (\<forall>pc \<in> set (loops s). \<forall>emailJob due. pc = AwaitRateLimit emailJob due \<longrightarrow>
         lastEmailTime s + SMTP_RATE_LIMIT cfg \<le> due)"

definition invariant :: "config \<Rightarrow> queue_state \<Rightarrow> bool" where
  "invariant cfg s \<longleftrightarrow> single_loop s \<and> promises_ok s \<and> rate_gate cfg s"

definition invocation_times :: "queue_state \<Rightarrow> time list" where
  "invocation_times s = map invokedAt (sendLog s)"

subsection \<open>The loop left alone with its timers and the transport\<close>

text \<open>
  A transport answers the \<open>n\<close>-th call of \<open>sendMail\<close> with an outcome, after some time.
  \<open>drain\<close> serves the one activation and nothing else: it fires the timer the activation
  waits for when it is due, and settles its send with the transport's answer; each unit of
  fuel is one resumption. \<open>Drained\<close> is the loop having returned, \<open>Running\<close> the fuel
  having run out with the activation still there.
\<close>

type_synonym transport = "nat \<Rightarrow> emailJob \<Rightarrow> send_outcome \<times> time"

fun event_time :: "event \<Rightarrow> time" where
  "event_time (QueueEmail now rnd mo) = now"
| "event_time (TimerFired i now) = now"
| "event_time (SendMailSettled i now outcome) = now"

fun next_event :: "transport \<Rightarrow> time \<Rightarrow> queue_state \<Rightarrow> loop_pc \<Rightarrow> event" where
  "next_event tr clock s (AwaitRateLimit emailJob due) = TimerFired 0 (max clock due)"
| "next_event tr clock s (AwaitRetryDelay due) = TimerFired 0 (max clock due)"
| "next_event tr clock s (AwaitSendMail emailJob) =
     (case tr (length (sendLog s)) emailJob of
        (outcome, duration) \<Rightarrow> SendMailSettled 0 (clock + duration) outcome)"

datatype drain_result = Drained queue_state | Running queue_state | Stuck

fun drain :: "config \<Rightarrow> transport \<Rightarrow> nat \<Rightarrow> time \<Rightarrow> queue_state \<Rightarrow> drain_result" where
  "drain cfg tr 0 clock s = (if loops s = [] then Drained s else Running s)"
| "drain cfg tr (Suc fuel) clock s =
     (case loops s of
        [] \<Rightarrow> Drained s
      | pc # others \<Rightarrow>
          (case step cfg (next_event tr clock s pc) s of
             None \<Rightarrow> Stuck
           | Some s' \<Rightarrow> drain cfg tr fuel (event_time (next_event tr clock s pc)) s'))"

definition always_rate_limited :: "transport \<Rightarrow> bool" where
  "always_rate_limited tr \<longleftrightarrow>
     (\<forall>n emailJob. case tr n emailJob of
        (Delivered messageId, duration) \<Rightarrow> False
      | (Failed error, duration) \<Rightarrow> is_rate_limit_error error)"

section \<open>The queue of the Postfix installer's server\<close>

text \<open>
  The server that the installer script writes keeps a retry count on each queued entry and
  no promise: \<open>POST /send-email\<close> answers as soon as the entry is pushed.
\<close>

record emailData =
  data_id :: string
  data_to :: jsval
  data_subject :: jsval
  data_text :: jsval
  data_html :: jsval
  data_from :: jsval
  data_messageId :: string
  retries :: nat
  data_timestamp :: time

text \<open>\<open>parseInt(process.env.X) || d\<close>: the default when the variable does not parse, or is 0.\<close>

fun parseInt_or :: "int option \<Rightarrow> int \<Rightarrow> int" where
  "parseInt_or None d = d"
| "parseInt_or (Some n) d = (if n = 0 then d else n)"

record pf_env =
  env_SMTP_RATE_LIMIT :: "int option"
  env_RETRY_DELAY :: "int option"

definition RATE_LIMIT :: "pf_env \<Rightarrow> int" where
  "RATE_LIMIT env = parseInt_or (env_SMTP_RATE_LIMIT env) 100"

definition pf_RETRY_DELAY :: "pf_env \<Rightarrow> int" where
  "pf_RETRY_DELAY env = parseInt_or (env_RETRY_DELAY env) 1000"

text \<open>
  \<open>minInterval\<close> is \<open>60000 / RATE_LIMIT\<close>, a division of JavaScript numbers. \<open>js_div\<close>
  stands for that division: its result is a double, which is a rational number, and not
  always the exact quotient.
\<close>

type_synonym js_division = "int \<Rightarrow> int \<Rightarrow> rat"

definition minInterval :: "js_division \<Rightarrow> pf_env \<Rightarrow> rat" where
  "minInterval js_div env = js_div 60000 (RATE_LIMIT env)"

text \<open>
  The awaits of this loop. The rate-limit wait holds the entry shifted and the time its
  timer is due, which is the time the wait began plus the delay handed to \<open>setTimeout\<close>, a
  fraction of a millisecond in general; the retry delay holds the time it is due.
\<close>

datatype pf_pc =
    PfAwaitRateLimit emailData rat
  | PfAwaitSendMail emailData
  | PfAwaitRetryDelay time

text \<open>One call of \<open>transporter.sendMail\<close> by this loop: when, the value of
  \<open>lastEmailTime\<close> then, and the entry.\<close>

record pf_invocation =
  pf_invokedAt :: time
  pf_lastSuccess :: time
  pf_sent :: emailData

text \<open>
  The module's variables \<open>emailQueue\<close>, \<open>isProcessing\<close>, \<open>lastEmailTime\<close>, with the
  activations of \<open>processEmailQueue\<close> that have not returned and the calls of \<open>sendMail\<close>
  made so far.
\<close>

record pf_state =
  pf_emailQueue :: "emailData list"
  pf_isProcessing :: bool
  pf_lastEmailTime :: time
  pf_loops :: "pf_pc list"
  pf_sendLog :: "pf_invocation list"

definition pf_initial :: pf_state where
  "pf_initial = \<lparr>pf_emailQueue = [], pf_isProcessing = False, pf_lastEmailTime = 0,
                 pf_loops = [], pf_sendLog = []\<rparr>"

definition pf_sendMail :: "time \<Rightarrow> emailData \<Rightarrow> pf_state \<Rightarrow> pf_state" where
  "pf_sendMail now emailData s =
     s\<lparr>pf_sendLog := pf_sendLog s @
        [\<lparr>pf_invokedAt = now, pf_lastSuccess = pf_lastEmailTime s, pf_sent = emailData\<rparr>]\<rparr>"

text \<open>
  From the loop test to the next await: the entry at the front is shifted; if less than
  \<open>minInterval\<close> has passed since \<open>lastEmailTime\<close> the activation waits for
  \<open>minInterval - timeSinceLastEmail\<close>, else it calls \<open>sendMail\<close> at once. The difference is
  one of doubles; it is exact when \<open>0 \<le> timeSinceLastEmail < minInterval\<close> (both are
  multiples of the last binary place of \<open>minInterval\<close>, and the difference is no larger than
  \<open>minInterval\<close>), which is when the wait is taken with a clock that has not gone back.
\<close>

definition pf_loop_head ::
  "js_division \<Rightarrow> pf_env \<Rightarrow> time \<Rightarrow> pf_state \<Rightarrow> pf_state \<times> pf_pc option" where
  "pf_loop_head js_div env now s =
     (case pf_emailQueue s of
        [] \<Rightarrow> (s\<lparr>pf_isProcessing := False\<rparr>, None)
      | emailData # rest \<Rightarrow>
          (let timeSinceLastEmail = now - pf_lastEmailTime s in
           if of_int timeSinceLastEmail < minInterval js_div env
           then (s\<lparr>pf_emailQueue := rest\<rparr>,
                 Some (PfAwaitRateLimit emailData
                         (of_int now + (minInterval js_div env - of_int timeSinceLastEmail))))
           else (pf_sendMail now emailData (s\<lparr>pf_emailQueue := rest\<rparr>),
                 Some (PfAwaitSendMail emailData))))"

text \<open>
  From the settling of \<open>sendMail\<close> to the \<open>RETRY_DELAY\<close> wait that ends every turn of this
  loop: the time is recorded on success; the \<open>catch\<close> block counts a retry and pushes the
  entry back while it has fewer than 3, and else lets it go.
\<close>

definition pf_after_send ::
  "pf_env \<Rightarrow> time \<Rightarrow> emailData \<Rightarrow> send_outcome \<Rightarrow> pf_state \<Rightarrow> pf_state \<times> pf_pc" where
  "pf_after_send env now emailData outcome s =
     ((case outcome of
         Delivered messageId \<Rightarrow> s\<lparr>pf_lastEmailTime := now\<rparr>
       | Failed error \<Rightarrow>
           (if retries emailData < 3
            then s\<lparr>pf_emailQueue :=
                     pf_emailQueue s @ [emailData\<lparr>retries := retries emailData + 1\<rparr>]\<rparr>
            else s)),
      PfAwaitRetryDelay (now + pf_RETRY_DELAY env))"

text \<open>A call of \<open>processEmailQueue\<close>: the guard, the flag, and the loop up to its first await.\<close>

definition pf_processEmailQueue ::
  "js_division \<Rightarrow> pf_env \<Rightarrow> time \<Rightarrow> pf_state \<Rightarrow> pf_state" where
  "pf_processEmailQueue js_div env now s =
     (if pf_isProcessing s \<or> pf_emailQueue s = [] then s
      else (case pf_loop_head js_div env now (s\<lparr>pf_isProcessing := True\<rparr>) of
              (s', None) \<Rightarrow> s'
            | (s', Some pc) \<Rightarrow> s'\<lparr>pf_loops := pf_loops s' @ [pc]\<rparr>))"

text \<open>
  What \<open>POST /send-email\<close> of this server does with a body that passes its validation: the
  entry is built with no retries, pushed, and \<open>processEmailQueue\<close> is called. \<open>entry_id\<close>
  and \<open>messageId\<close> are the two strings the handler makes of \<open>Date.now()\<close> and
  \<open>Math.random()\<close>.
\<close>

definition pf_enqueue ::
  "js_division \<Rightarrow> pf_env \<Rightarrow> time \<Rightarrow> string \<Rightarrow> string \<Rightarrow> jsval \<Rightarrow> pf_state \<Rightarrow> pf_state" where
  "pf_enqueue js_div env now entry_id messageId body s =
     (let emailData =
            \<lparr>data_id = entry_id, data_to = field body ''to'',
             data_subject = field body ''subject'', data_text = field body ''text'',
             data_html = field body ''html'', data_from = field body ''from'',
             data_messageId = messageId, retries = 0, data_timestamp = now\<rparr>
      in pf_processEmailQueue js_div env now
           (s\<lparr>pf_emailQueue := pf_emailQueue s @ [emailData]\<rparr>))"

text \<open>
  What happens to this server, each with the value \<open>Date.now()\<close> has while the code runs: a
  valid request, the firing of the timer an activation waits for, and the settling of the
  \<open>sendMail\<close> an activation waits for.
\<close>

datatype pf_event =
    PfPosted time string string jsval
  | PfTimerFired nat time
  | PfSendMailSettled nat time send_outcome

fun pf_event_time :: "pf_event \<Rightarrow> time" where
  "pf_event_time (PfPosted now entry_id messageId body) = now"
| "pf_event_time (PfTimerFired i now) = now"
| "pf_event_time (PfSendMailSettled i now outcome) = now"

definition pf_suspend :: "nat \<Rightarrow> pf_state \<times> pf_pc option \<Rightarrow> pf_state" where
  "pf_suspend i r =
     (case r of
        (s, Some pc) \<Rightarrow> s\<lparr>pf_loops := (pf_loops s)[i := pc]\<rparr>
      | (s, None) \<Rightarrow> s\<lparr>pf_loops := take i (pf_loops s) @ drop (Suc i) (pf_loops s)\<rparr>)"

text \<open>
  One event. \<open>None\<close> is an event that cannot happen in the state: a request that does not
  pass the validation queues nothing, there is no such activation or it waits for something
  else, a timer fires before it is due, or the clock reads less than at the last successful
  send.
\<close>

fun pf_resume ::
  "js_division \<Rightarrow> pf_env \<Rightarrow> pf_event \<Rightarrow> pf_state \<Rightarrow> pf_state option" where
  "pf_resume js_div env (PfPosted now entry_id messageId body) s =
     (if destructurable body \<and> \<not> missing_fields body
      then Some (pf_enqueue js_div env now entry_id messageId body s) else None)"
| "pf_resume js_div env (PfTimerFired i now) s =
     (if i < length (pf_loops s) then
        (case pf_loops s ! i of
           PfAwaitRateLimit emailData due \<Rightarrow>
             if due \<le> of_int now
             then Some (pf_suspend i (pf_sendMail now emailData s, Some (PfAwaitSendMail emailData)))
             else None
         | PfAwaitSendMail emailData \<Rightarrow> None
         | PfAwaitRetryDelay due \<Rightarrow>
             if due \<le> now then Some (pf_suspend i (pf_loop_head js_div env now s)) else None)
      else None)"
| "pf_resume js_div env (PfSendMailSettled i now outcome) s =
     (if i < length (pf_loops s) then
        (case pf_loops s ! i of
           PfAwaitSendMail emailData \<Rightarrow>
             Some (pf_suspend i
                     (case pf_after_send env now emailData outcome s of
                        (s', pc) \<Rightarrow> (s', Some pc)))
         | PfAwaitRateLimit emailData due \<Rightarrow> None
         | PfAwaitRetryDelay due \<Rightarrow> None)
      else None)"

definition pf_step ::
  "js_division \<Rightarrow> pf_env \<Rightarrow> pf_event \<Rightarrow> pf_state \<Rightarrow> pf_state option" where
  "pf_step js_div env e s =
     (if pf_event_time e < pf_lastEmailTime s then None else pf_resume js_div env e s)"

fun pf_run ::
  "js_division \<Rightarrow> pf_env \<Rightarrow> pf_event list \<Rightarrow> pf_state \<Rightarrow> pf_state option" where
  "pf_run js_div env [] s = Some s"
| "pf_run js_div env (e # es) s =
     (case pf_step js_div env e s of None \<Rightarrow> None | Some s' \<Rightarrow> pf_run js_div env es s')"

text \<open>
  What holds in every state this server reaches: at most one activation, the flag set
  exactly when there is one; every call of the transport came at least \<open>minInterval\<close> after
  the \<open>lastEmailTime\<close> of its moment, and a pending rate-limit timer is due no earlier.
\<close>

definition pf_single_loop :: "pf_state \<Rightarrow> bool" where
  "pf_single_loop s \<longleftrightarrow>
     length (pf_loops s) \<le> 1 \<and> (pf_isProcessing s \<longleftrightarrow> pf_loops s \<noteq> [])"

definition pf_rate_gate :: "js_division \<Rightarrow> pf_env \<Rightarrow> pf_state \<Rightarrow> bool" where
  "pf_rate_gate js_div env s \<longleftrightarrow>
     (\<forall>c \<in> set (pf_sendLog s).
        minInterval js_div env \<le> of_int (pf_invokedAt c - pf_lastSuccess c)) \<and>
     (\<forall>pc \<in> set (pf_loops s). \<forall>emailData due. pc = PfAwaitRateLimit emailData due \<longrightarrow>
        of_int (pf_lastEmailTime s) + minInterval js_div env \<le> due)"

definition pf_invariant :: "js_division \<Rightarrow> pf_env \<Rightarrow> pf_state \<Rightarrow> bool" where
  "pf_invariant js_div env s \<longleftrightarrow> pf_single_loop s \<and> pf_rate_gate js_div env s"

section \<open>The HTTP handlers\<close>

text \<open>
  A reply is a status and a body. The bodies the handlers build: the success object with
  the transport's \<open>messageId\<close>; \<open>{error}\<close>; \<open>{error, details}\<close> and
  \<open>{error, details, code}\<close>, where \<open>details\<close> is the message of what was caught; and the
  report of the bulk handler.
\<close>

datatype detail = TypeErrorMessage | Message string

datatype bulk_entry = BulkEntry nat jsval bool string

fun entry_index :: "bulk_entry \<Rightarrow> nat" where
  "entry_index (BulkEntry index recipient success d) = index"

fun entry_recipient :: "bulk_entry \<Rightarrow> jsval" where
  "entry_recipient (BulkEntry index recipient success d) = recipient"

fun entry_success :: "bulk_entry \<Rightarrow> bool" where
  "entry_success (BulkEntry index recipient success d) = success"

datatype payload =
    SentOk string
  | ErrorOnly string
  | ErrorDetails string detail
  | ErrorDetailsCode string detail "int option"
  | BulkReport nat nat "bulk_entry list" "bulk_entry list"

record response =
  status :: nat
  payload :: payload

text \<open>
  The \<open>mailOptions\<close> of \<open>POST /send-email\<close>. \<open>sender\<close> is what follows \<open>from ||\<close>:
  \<open>process.env.GMAIL_USER\<close> in the server that sends directly,
  \<open>process.env.SMTP_FROM || process.env.SMTP_USER\<close> in the server with the queue.
\<close>

definition single_mailOptions :: "jsval \<Rightarrow> jsval \<Rightarrow> mail_options" where
  "single_mailOptions sender body =
     \<lparr>mail_from = js_or (field body ''from'') sender,
      mail_to = join_if_array (field body ''to''),
      mail_subject = field body ''subject'',
      mail_text = field body ''text'',
      mail_html = field body ''html''\<rparr>"

subsection \<open>The server that sends directly (server.js)\<close>

text \<open>
  \<open>transporter n m\<close> is what the transport answers to the \<open>n\<close>-th call of
  \<open>transporter.sendMail\<close> a handler makes, with the message \<open>m\<close>. A handler's result is its
  reply and the messages it handed to the transport. Destructuring a body that is
  \<open>undefined\<close> or \<open>null\<close> throws inside the \<open>try\<close>, and the \<open>catch\<close> answers 500.
\<close>

definition send_email ::
  "jsval \<Rightarrow> (nat \<Rightarrow> mail_options \<Rightarrow> send_outcome) \<Rightarrow> jsval \<Rightarrow> response \<times> mail_options list" where
  "send_email GMAIL_USER transporter body =
     (if \<not> destructurable body
      then (\<lparr>status = 500, payload = ErrorDetails ''Failed to send email'' TypeErrorMessage\<rparr>, [])
      else if missing_fields body
      then (\<lparr>status = 400,
             payload = ErrorOnly ''Missing required fields: to, subject, and either text or html''\<rparr>, [])
      else
        (let mailOptions = single_mailOptions GMAIL_USER body
         in case transporter 0 mailOptions of
              Delivered messageId \<Rightarrow> (\<lparr>status = 200, payload = SentOk messageId\<rparr>, [mailOptions])
            | Failed error \<Rightarrow>
                (\<lparr>status = 500,
                  payload = ErrorDetails ''Failed to send email'' (Message (message error))\<rparr>,
                 [mailOptions])))"

subsection \<open>The bulk handler, the same in both servers\<close>

text \<open>
  \<open>POST /send-bulk-email\<close> runs in two stretches. The first validates and then calls
  \<open>recipients.map\<close> with an async callback: each callback builds its \<open>mailOptions\<close> and
  calls \<open>transporter.sendMail\<close> before it suspends, so when the handler reaches
  \<open>await Promise.allSettled(emailPromises)\<close> every message has been handed to the transport
  and no answer has been looked at. Each callback goes on when the transport answers its
  call, in whatever order the answers come, and the second stretch of the handler runs once
  every promise is settled. \<open>sender\<close> is what follows \<open>from ||\<close>, as for the single mail.
\<close>

definition bulk_mailOptions :: "jsval \<Rightarrow> jsval \<Rightarrow> jsval \<Rightarrow> mail_options" where
  "bulk_mailOptions sender body recipient =
     \<lparr>mail_from = js_or (field body ''from'') sender,
      mail_to = Plain recipient,
      mail_subject = field body ''subject'',
      mail_text = field body ''text'',
      mail_html = field body ''html''\<rparr>"

text \<open>
  What \<open>Promise.allSettled\<close> reports of a promise: fulfilled with a value or rejected with
  a reason.
\<close>

datatype 'a settled = Fulfilled 'a | RejectedBecause string

text \<open>
  The handler waiting at \<open>Promise.allSettled\<close>: the recipients, the messages handed to
  \<open>transporter.sendMail\<close>, in the order of the calls, and the promise of each callback,
  \<open>None\<close> while it is pending.
\<close>

record bulk_waiting =
  bulk_recipients :: "jsval list"
  bulk_messages :: "mail_options list"
  emailPromises :: "bulk_entry settled option list"

datatype bulk_step = BulkReplied response | BulkAwaiting bulk_waiting

definition bulk_begin :: "jsval \<Rightarrow> jsval \<Rightarrow> bulk_step" where
  "bulk_begin sender body =
     (if \<not> destructurable body
      then BulkReplied
             \<lparr>status = 500, payload = ErrorDetails ''Failed to send bulk emails'' TypeErrorMessage\<rparr>
      else
        (case field body ''recipients'' of
           JArr recipients \<Rightarrow>
             if recipients = []
             then BulkReplied
                    \<lparr>status = 400,
                     payload = ErrorOnly ''Recipients array is required and cannot be empty''\<rparr>
             else if \<not> truthy (field body ''subject'') \<or>
                     (\<not> truthy (field body ''text'') \<and> \<not> truthy (field body ''html''))
             then BulkReplied
                    \<lparr>status = 400,
                     payload = ErrorOnly ''Missing required fields: subject, and either text or html''\<rparr>
             else BulkAwaiting
                    \<lparr>bulk_recipients = recipients,
                     bulk_messages = map (bulk_mailOptions sender body) recipients,
                     emailPromises = replicate (length recipients) None\<rparr>
         | other \<Rightarrow>
             BulkReplied
               \<lparr>status = 400,
                payload = ErrorOnly ''Recipients array is required and cannot be empty''\<rparr>))"

text \<open>
  The rest of the callback of the recipient at \<open>index\<close>, run when the transport answers its
  call: the entry of a success from the \<open>try\<close>, that of a failure from the \<open>catch\<close>. Either
  way the callback returns, so its promise is fulfilled. \<open>None\<close>: the callback is not
  waiting (no such call, or already answered).
\<close>

definition callback_settled :: "nat \<Rightarrow> send_outcome \<Rightarrow> bulk_waiting \<Rightarrow> bulk_waiting option" where
  "callback_settled index outcome w =
     (if index < length (emailPromises w) \<and> emailPromises w ! index = None
      then Some (w\<lparr>emailPromises := (emailPromises w)
                    [index := Some (Fulfilled
                       (case outcome of
                          Delivered messageId \<Rightarrow>
                            BulkEntry index (bulk_recipients w ! index) True messageId
                        | Failed error \<Rightarrow>
                            BulkEntry index (bulk_recipients w ! index) False (message error)))]\<rparr>)
      else None)"

text \<open>The answers of the transport, each with the index of the call it answers, in the order
  they come.\<close>

fun callbacks_settled :: "(nat \<times> send_outcome) list \<Rightarrow> bulk_waiting \<Rightarrow> bulk_waiting option" where
  "callbacks_settled [] w = Some w"
| "callbacks_settled ((index, outcome) # answers) w =
     (case callback_settled index outcome w of
        None \<Rightarrow> None
      | Some w' \<Rightarrow> callbacks_settled answers w')"

text \<open>
  The body of \<open>emailResults.forEach\<close>, on the pair of \<open>results\<close> and \<open>errors\<close>: \<open>push\<close>
  appends.
\<close>

definition sort_result ::
  "jsval list \<Rightarrow> bulk_entry list \<times> bulk_entry list \<Rightarrow> nat \<times> bulk_entry settled \<Rightarrow>
     bulk_entry list \<times> bulk_entry list" where
  "sort_result recipients acc ir =
     (case acc of (results, errors) \<Rightarrow>
        (case ir of
           (index, Fulfilled v) \<Rightarrow>
             if entry_success v then (results @ [v], errors) else (results, errors @ [v])
         | (index, RejectedBecause reason) \<Rightarrow>
             (results, errors @ [BulkEntry index (recipients ! index) False reason])))"

definition with_index :: "'a list \<Rightarrow> (nat \<times> 'a) list" where
  "with_index xs = zip [0..<length xs] xs"

text \<open>
  The second stretch: nothing while a promise is pending; then the results are sorted into
  \<open>results\<close> and \<open>errors\<close> and the report is the reply.
\<close>

definition bulk_reply :: "bulk_waiting \<Rightarrow> response option" where
  "bulk_reply w =
     (if None \<in> set (emailPromises w) then None
      else
        (let emailResults = map the (emailPromises w);
             sorted = foldl (sort_result (bulk_recipients w)) ([], []) (with_index emailResults)
         in Some \<lparr>status = 200,
                  payload = BulkReport (length (fst sorted)) (length (snd sorted))
                              (fst sorted) (snd sorted)\<rparr>))"

subsection \<open>The server that sends through the queue\<close>

text \<open>
  \<open>POST /send-email\<close> of the server with the queue, up to its \<open>await queueEmail(...)\<close>:
  either it has replied, or it waits for the promise of the job it queued.
\<close>

definition queued_send_email ::
  "jsval \<Rightarrow> config \<Rightarrow> time \<Rightarrow> rat \<Rightarrow> jsval \<Rightarrow> queue_state \<Rightarrow> (response + nat) \<times> queue_state" where
  "queued_send_email sender cfg now rnd body s =
     (if \<not> destructurable body
      then (Inl \<lparr>status = 500,
                 payload = ErrorDetailsCode ''Failed to queue email'' TypeErrorMessage None\<rparr>, s)
      else if missing_fields body
      then (Inl \<lparr>status = 400,
                 payload = ErrorOnly ''Missing required fields: to, subject, and either text or html''\<rparr>,
            s)
      else
        (let mailOptions = single_mailOptions sender body
         in case queueEmail cfg now rnd mailOptions s of (p, s') \<Rightarrow> (Inr p, s')))"

text \<open>
  The rest of the handler, once the promise is settled: the value it was resolved with is
  the reply; a rejection is caught and answered with 500, \<open>details\<close> being
  \<open>error.message || error.details\<close> of the rejection object, which has no \<open>message\<close>.
\<close>

fun queued_send_email_settled :: "settlement \<Rightarrow> response" where
  "queued_send_email_settled (Resolved messageId) = \<lparr>status = 200, payload = SentOk messageId\<rparr>"
| "queued_send_email_settled (Rejected details code) =
     \<lparr>status = 500, payload = ErrorDetailsCode ''Failed to queue email'' (Message details) code\<rparr>"

text \<open>
  What the handler that awaits the promise \<open>p\<close> replies in a state: nothing while the
  promise is pending, and what the first settling of it gives after.
\<close>

definition queued_reply :: "nat \<Rightarrow> queue_state \<Rightarrow> response option" where
  "queued_reply p s = map_option queued_send_email_settled (map_of (settlements s) p)"

section \<open>Notions of the proofs\<close>

text \<open>What a step of the loop leaves suspended, as held jobs and as a list of activations.\<close>

definition pc_jobs :: "loop_pc option \<Rightarrow> emailJob list" where
  "pc_jobs pc = (case pc of None \<Rightarrow> [] | Some p \<Rightarrow> held p)"

definition pc_list :: "loop_pc option \<Rightarrow> loop_pc list" where
  "pc_list pc = (case pc of None \<Rightarrow> [] | Some p \<Rightarrow> [p])"

text \<open>The activation is busy with \<open>emailJob\<close>: sending it, or waiting to send it again.\<close>

definition retrying :: "emailJob \<Rightarrow> emailJob list \<Rightarrow> queue_state \<Rightarrow> bool" where
  "retrying emailJob rest s \<longleftrightarrow>
     (case loops s of
        [AwaitSendMail j] \<Rightarrow> j = emailJob \<and> emailQueue s = rest
      | [AwaitRateLimit j due] \<Rightarrow> j = emailJob \<and> emailQueue s = rest
      | [AwaitRetryDelay due] \<Rightarrow> emailQueue s = emailJob # rest
      | _ \<Rightarrow> False)"

fun rank :: "loop_pc \<Rightarrow> nat" where
  "rank (AwaitSendMail j) = 0"
| "rank (AwaitRetryDelay due) = 1"
| "rank (AwaitRateLimit j due) = 2"

definition progress :: "queue_state \<Rightarrow> nat" where
  "progress s = 3 * length (sendLog s) + rank (hd (loops s))"

text \<open>
  From \<open>s\<close> to \<open>s'\<close> nothing was settled and the transport was called for \<open>emailJob\<close> only.
\<close>

definition only_job :: "emailJob \<Rightarrow> queue_state \<Rightarrow> queue_state \<Rightarrow> bool" where
  "only_job emailJob s s' \<longleftrightarrow>
     settlements s' = settlements s \<and> length (sendLog s) \<le> length (sendLog s') \<and>
     take (length (sendLog s)) (sendLog s') = sendLog s \<and>
     (\<forall>i \<in> set (drop (length (sendLog s)) (sendLog s')). sentJob i = emailJob)"

text \<open>What identifies an entry of the bulk report: its index and its recipient.\<close>

definition entry_key :: "bulk_entry \<Rightarrow> nat \<times> jsval" where
  "entry_key e = (entry_index e, entry_recipient e)"

text \<open>The entry the callback of the recipient at \<open>index\<close> returns for an answer.\<close>

definition entry_for :: "jsval list \<Rightarrow> nat \<Rightarrow> send_outcome \<Rightarrow> bulk_entry" where
  "entry_for recipients index outcome =
     (case outcome of
        Delivered messageId \<Rightarrow> BulkEntry index (recipients ! index) True messageId
      | Failed error \<Rightarrow> BulkEntry index (recipients ! index) False (message error))"

section \<open>Example data\<close>

definition example_cfg :: config where
  "example_cfg = \<lparr>SMTP_RATE_LIMIT = 1000, RETRY_DELAY = 30000\<rparr>"

definition example_mail :: mail_options where
  "example_mail = \<lparr>mail_from = Undefined, mail_to = Plain (JStr ''a@example.org''),
                    mail_subject = JStr ''hello'', mail_text = JStr ''text'', mail_html = Undefined\<rparr>"

definition example_job :: "nat \<Rightarrow> time \<Rightarrow> emailJob" where
  "example_job p t = \<lparr>job_id = of_int t, mailOptions = example_mail, promise = p, timestamp = t\<rparr>"

definition mailbox_unavailable :: send_error where
  "mailbox_unavailable = \<lparr>message = ''550 mailbox unavailable'', responseCode = Some 550\<rparr>"

definition try_again_later :: send_error where
  "try_again_later = \<lparr>message = ''service not available'', responseCode = Some 421\<rparr>"

definition two_queued :: "event list" where
  "two_queued = [QueueEmail 5000 0 example_mail, QueueEmail 5001 0 example_mail]"

definition busy_state :: queue_state where
  "busy_state =
     \<lparr>emailQueue = [example_job 1 5001], isProcessingQueue = True, lastEmailTime = 0,
      loops = [AwaitSendMail (example_job 0 5000)], settlements = [],
      sendLog = [\<lparr>invokedAt = 5000, lastSuccess = 0, sentJob = example_job 0 5000\<rparr>],
      promises = 2\<rparr>"

definition after_delivery :: queue_state where
  "after_delivery =
     \<lparr>emailQueue = [], isProcessingQueue = True, lastEmailTime = 5010,
      loops = [AwaitRateLimit (example_job 1 5001) 6010],
      settlements = [(0, Resolved ''m1'')],
      sendLog = [\<lparr>invokedAt = 5000, lastSuccess = 0, sentJob = example_job 0 5000\<rparr>],
      promises = 2\<rparr>"

definition busy_transport :: transport where
  "busy_transport n emailJob = (Failed try_again_later, 10)"

definition after_rejection :: queue_state where
  "after_rejection =
     \<lparr>emailQueue = [], isProcessingQueue = True, lastEmailTime = 0,
      loops = [AwaitSendMail (example_job 1 5001)],
      settlements = [(0, Rejected ''550 mailbox unavailable'' (Some 550))],
      sendLog = [\<lparr>invokedAt = 5000, lastSuccess = 0, sentJob = example_job 0 5000\<rparr>,
                 \<lparr>invokedAt = 5010, lastSuccess = 0, sentJob = example_job 1 5001\<rparr>],
      promises = 2\<rparr>"

definition example_env :: pf_env where
  "example_env = \<lparr>env_SMTP_RATE_LIMIT = Some 7, env_RETRY_DELAY = None\<rparr>"

definition example_data :: "nat \<Rightarrow> emailData" where
  "example_data n =
     \<lparr>data_id = ''5000.ab12'', data_to = JStr ''a@example.org'', data_subject = JStr ''hello'',
      data_text = JStr ''text'', data_html = Undefined, data_from = Undefined,
      data_messageId = ''<5000.abcdefghi@example.org>'', retries = n, data_timestamp = 5000\<rparr>"

definition example_pf_state :: "emailData list \<Rightarrow> pf_state" where
  "example_pf_state q =
     \<lparr>pf_emailQueue = q, pf_isProcessing = True, pf_lastEmailTime = 1000,
      pf_loops = [PfAwaitSendMail (example_data 0)], pf_sendLog = []\<rparr>"

definition after_retry :: queue_state where
  "after_retry =
     \<lparr>emailQueue = [example_job 1 5001], isProcessingQueue = True, lastEmailTime = 0,
      loops = [AwaitSendMail (example_job 0 5000)], settlements = [],
      sendLog = [\<lparr>invokedAt = 5000, lastSuccess = 0, sentJob = example_job 0 5000\<rparr>,
                 \<lparr>invokedAt = 35010, lastSuccess = 0, sentJob = example_job 0 5000\<rparr>],
      promises = 2\<rparr>"

definition after_wait :: queue_state where
  "after_wait =
     \<lparr>emailQueue = [], isProcessingQueue = True, lastEmailTime = 5010,
      loops = [AwaitSendMail (example_job 1 5001)],
      settlements = [(0, Resolved ''m1'')],
      sendLog = [\<lparr>invokedAt = 5000, lastSuccess = 0, sentJob = example_job 0 5000\<rparr>,
                 \<lparr>invokedAt = 6010, lastSuccess = 5010, sentJob = example_job 1 5001\<rparr>],
      promises = 2\<rparr>"

definition three_recipients :: jsval where
  "three_recipients =
     JObj [(''recipients'', JArr [JStr ''a@example.org'', JStr ''b@example.org'', JStr ''a@example.org'']),
           (''subject'', JStr ''hello''), (''text'', JStr ''text'')]"

definition three_waiting :: bulk_waiting where
  "three_waiting =
     \<lparr>bulk_recipients = [JStr ''a@example.org'', JStr ''b@example.org'', JStr ''a@example.org''],
      bulk_messages =
        [\<lparr>mail_from = Undefined, mail_to = Plain (JStr ''a@example.org''),
          mail_subject = JStr ''hello'', mail_text = JStr ''text'', mail_html = Undefined\<rparr>,
         \<lparr>mail_from = Undefined, mail_to = Plain (JStr ''b@example.org''),
          mail_subject = JStr ''hello'', mail_text = JStr ''text'', mail_html = Undefined\<rparr>,
         \<lparr>mail_from = Undefined, mail_to = Plain (JStr ''a@example.org''),
          mail_subject = JStr ''hello'', mail_text = JStr ''text'', mail_html = Undefined\<rparr>],
      emailPromises = [None, None, None]\<rparr>"

definition last_answers_first :: "(nat \<times> send_outcome) list" where
  "last_answers_first =
     [(2, Delivered ''m2''), (1, Failed mailbox_unavailable), (0, Delivered ''m0'')]"

text \<open>
  For the server of the installer: a division that is exact, as the double division is
  for 60000 / 100; an environment with the default rate and a short retry delay; a body that
  passes the validation; and two requests, of which the first send is delivered at 5010 and
  the second, after the retry delay, waits for the rate limit. \<open>pf_calls\<close> lists the calls
  of the transport as pairs of their time and the \<open>lastEmailTime\<close> of the moment.
\<close>

definition exact_quotient :: js_division where
  "exact_quotient a b = of_int a / of_int b"

definition installer_env :: pf_env where
  "installer_env = \<lparr>env_SMTP_RATE_LIMIT = None, env_RETRY_DELAY = Some 100\<rparr>"

definition example_body :: jsval where
  "example_body = JObj [(''to'', JStr ''a@example.org''), (''subject'', JStr ''hello''),
                        (''text'', JStr ''text'')]"

definition two_posted_one_delivered :: "pf_event list" where
  "two_posted_one_delivered =
     [PfPosted 5000 ''5000.ab12'' ''<5000.abcdefghi@example.org>'' example_body,
      PfPosted 5001 ''5001.cd34'' ''<5001.jklmnopqr@example.org>'' example_body,
      PfSendMailSettled 0 5010 (Delivered ''m1''),
      PfTimerFired 0 5110,
      PfTimerFired 0 5610]"

definition pf_calls :: "pf_state \<Rightarrow> (time \<times> time) list" where
  "pf_calls p = map (\<lambda>c. (pf_invokedAt c, pf_lastSuccess c)) (pf_sendLog p)"

section \<open>Lemmas\<close>

lemmas model_defs = queueEmail_def processEmailQueue_def loop_head_def sendMail_def Let_def
  suspend_def after_send_def catch_error_def send_fulfilled_def is_rate_limit_error_def

lemmas example_defs = example_cfg_def example_mail_def example_job_def mailbox_unavailable_def
  try_again_later_def two_queued_def busy_state_def initial_def

lemma single_loop_cases:
  "single_loop s \<Longrightarrow>
     (loops s = [] \<and> \<not> isProcessingQueue s \<and> emailQueue s = []) \<or>
     (\<exists>pc. loops s = [pc] \<and> isProcessingQueue s)"
  unfolding single_loop_def by (cases "loops s") auto

lemma loop_head_frame:
  "loop_head cfg now s = (s', pc) \<Longrightarrow>
     loops s' = loops s \<and> settlements s' = settlements s \<and> lastEmailTime s' = lastEmailTime s
     \<and> promises s' = promises s"
  by (auto simp: loop_head_def sendMail_def Let_def split: list.splits if_splits)

lemma loop_head_empty:
  "emailQueue s = [] \<Longrightarrow> loop_head cfg now s = (s\<lparr>isProcessingQueue := False\<rparr>, None)"
  by (simp add: loop_head_def)

lemma loop_head_shift:
  "emailQueue s = emailJob # rest \<Longrightarrow> loop_head cfg now s = (s', pc) \<Longrightarrow>
     emailQueue s' = rest \<and> isProcessingQueue s' = isProcessingQueue s \<and>
     (\<exists>p. pc = Some p \<and> held p = [emailJob])"
  by (auto simp: loop_head_def sendMail_def Let_def split: if_splits)

lemma single_loop_step:
  assumes "single_loop s" and "step cfg e s = Some s'"
  shows "single_loop s'"
proof -
  from single_loop_cases [OF assms(1)]
  show ?thesis
  proof
    assume "loops s = [] \<and> \<not> isProcessingQueue s \<and> emailQueue s = []"
    with assms(2) show ?thesis
      by (cases e)
         (auto simp: single_loop_def queueEmail_def processEmailQueue_def loop_head_def
            sendMail_def Let_def split: list.splits if_splits)
  next
    assume "\<exists>pc. loops s = [pc] \<and> isProcessingQueue s"
    then obtain pc where pc: "loops s = [pc]" "isProcessingQueue s" by blast
    with assms(2) show ?thesis
      by (cases e; cases pc)
         (auto simp: single_loop_def queueEmail_def processEmailQueue_def loop_head_def
            sendMail_def Let_def suspend_def after_send_def catch_error_def send_fulfilled_def
            split: list.splits if_splits send_outcome.splits)
  qed
qed

lemma loop_head_mset:
  "loop_head cfg now s = (s', pc) \<Longrightarrow>
     mset (map promise (emailQueue s')) + mset (map promise (pc_jobs pc))
       = mset (map promise (emailQueue s))"
  by (auto simp: loop_head_def sendMail_def Let_def pc_jobs_def split: list.splits if_splits)

lemma suspend_single:
  "loops s = [pc0] \<Longrightarrow> suspend 0 (s, pc) = s\<lparr>loops := pc_list pc\<rparr>"
  by (cases pc) (simp_all add: suspend_def pc_list_def)

lemma known_promises_mset:
  "mset (known_promises s) =
     mset (map promise (emailQueue s)) + mset (map promise (concat (map held (loops s))))
       + mset (map fst (settlements s))"
  by (simp add: known_promises_def in_flight_def)

lemma held_pc_list: "concat (map held (pc_list pc)) = pc_jobs pc"
  by (cases pc) (simp_all add: pc_list_def pc_jobs_def)

lemma resume_known:
  assumes "loop_head cfg now s = (s', pc)"
  shows "mset (known_promises (s'\<lparr>loops := pc_list pc\<rparr>))
           = mset (map promise (emailQueue s)) + mset (map fst (settlements s))"
  using loop_head_mset [OF assms] loop_head_frame [OF assms]
  by (simp add: known_promises_mset held_pc_list ac_simps)

lemma processEmailQueue_known:
  assumes "loops s = []" and "\<not> isProcessingQueue s"
  shows "mset (known_promises (processEmailQueue cfg now s)) = mset (known_promises s)"
proof (cases "emailQueue s = []")
  case True
  then show ?thesis by (simp add: processEmailQueue_def)
next
  case False
  obtain s' pc where lh: "loop_head cfg now (s\<lparr>isProcessingQueue := True\<rparr>) = (s', pc)"
    by (cases "loop_head cfg now (s\<lparr>isProcessingQueue := True\<rparr>)")
  have "loops s' = []" using loop_head_frame [OF lh] assms(1) by simp
  then have "processEmailQueue cfg now s = s'\<lparr>loops := pc_list pc\<rparr>"
    using False assms(2) lh by (cases pc) (simp_all add: processEmailQueue_def pc_list_def)
  then show ?thesis
    using resume_known [OF lh] assms(1) by (simp add: known_promises_mset)
qed

lemma processEmailQueue_promises: "promises (processEmailQueue cfg now s) = promises s"
  by (auto simp: processEmailQueue_def loop_head_def sendMail_def Let_def
      split: list.splits if_splits)

lemma processEmailQueue_busy: "isProcessingQueue s \<Longrightarrow> processEmailQueue cfg now s = s"
  by (simp add: processEmailQueue_def)

lemma queueEmail_known:
  assumes "single_loop s"
  shows "mset (known_promises (snd (queueEmail cfg now rnd mo s)))
           = add_mset (promises s) (mset (known_promises s))
         \<and> promises (snd (queueEmail cfg now rnd mo s)) = Suc (promises s)"
proof -
  define emailJob where
    "emailJob = \<lparr>job_id = of_int now + rnd, mailOptions = mo, promise = promises s, timestamp = now\<rparr>"
  define s1 where "s1 = s\<lparr>promises := Suc (promises s), emailQueue := emailQueue s @ [emailJob]\<rparr>"
  have q: "snd (queueEmail cfg now rnd mo s)
             = (if \<not> isProcessingQueue s1 then processEmailQueue cfg now s1 else s1)"
    by (simp add: queueEmail_def Let_def s1_def emailJob_def)
  have k1: "mset (known_promises s1) = add_mset (promises s) (mset (known_promises s))"
    by (simp add: known_promises_mset s1_def emailJob_def)
  have p1: "promises s1 = Suc (promises s)" by (simp add: s1_def)
  show ?thesis
  proof (cases "isProcessingQueue s1")
    case True
    then show ?thesis using q k1 p1 by simp
  next
    case False
    then have "loops s1 = []" using assms by (auto simp: single_loop_def s1_def)
    then show ?thesis
      using False q k1 p1 processEmailQueue_known [of s1 cfg now]
        processEmailQueue_promises [of cfg now s1] by simp
  qed
qed

lemma resume_known_step:
  assumes "loops s = [pc0]" and "step cfg e s = Some s'" and "\<forall>now rnd mo. e \<noteq> QueueEmail now rnd mo"
  shows "mset (known_promises s') = mset (known_promises s) \<and> promises s' = promises s"
proof (cases e)
  case (QueueEmail now rnd mo)
  then show ?thesis using assms(3) by simp
next
  case (TimerFired i now)
  show ?thesis
  proof (cases pc0)
    case (AwaitRateLimit emailJob due)
    then show ?thesis using assms(1,2) TimerFired
      by (auto simp: known_promises_mset suspend_def sendMail_def split: if_splits)
  next
    case (AwaitSendMail emailJob)
    then show ?thesis using assms(1,2) TimerFired by (auto split: if_splits)
  next
    case (AwaitRetryDelay due)
    obtain s1 pc where lh: "loop_head cfg now s = (s1, pc)" by (cases "loop_head cfg now s")
    have l1: "loops s1 = [pc0]" using loop_head_frame [OF lh] assms(1) by simp
    have "s' = s1\<lparr>loops := pc_list pc\<rparr>"
      using assms(1,2) TimerFired AwaitRetryDelay lh suspend_single [OF l1]
      by (auto split: if_splits)
    then show ?thesis
      using resume_known [OF lh] loop_head_frame [OF lh] assms(1) AwaitRetryDelay
      by (simp add: known_promises_mset)
  qed
next
  case (SendMailSettled i now outcome)
  show ?thesis
  proof (cases pc0)
    case (AwaitRateLimit emailJob due)
    then show ?thesis using assms(1,2) SendMailSettled by (auto split: if_splits)
  next
    case (AwaitRetryDelay due)
    then show ?thesis using assms(1,2) SendMailSettled by (auto split: if_splits)
  next
    case (AwaitSendMail emailJob)
    then have s': "s' = suspend 0 (after_send cfg now emailJob outcome s)"
      using assms(1,2) SendMailSettled by (auto split: if_splits)
    show ?thesis
    proof (cases outcome)
      case (Delivered messageId)
      define s0 where "s0 = send_fulfilled now emailJob messageId s"
      obtain s1 pc where lh: "loop_head cfg now s0 = (s1, pc)" by (cases "loop_head cfg now s0")
      have l1: "loops s1 = [pc0]"
        using loop_head_frame [OF lh] assms(1) by (simp add: s0_def send_fulfilled_def)
      have "s' = s1\<lparr>loops := pc_list pc\<rparr>"
        using s' Delivered lh suspend_single [OF l1] by (simp add: after_send_def s0_def)
      then show ?thesis
        using resume_known [OF lh] loop_head_frame [OF lh] assms(1) AwaitSendMail
        by (simp add: known_promises_mset s0_def send_fulfilled_def)
    next
      case (Failed error)
      show ?thesis
      proof (cases "is_rate_limit_error error")
        case True
        then show ?thesis using s' Failed assms(1) AwaitSendMail
          by (simp add: after_send_def catch_error_def suspend_def known_promises_mset)
      next
        case False
        define s0 where "s0 = fst (catch_error emailJob error s)"
        have c: "catch_error emailJob error s = (s0, False)"
          using False by (simp add: s0_def catch_error_def)
        obtain s1 pc where lh: "loop_head cfg now s0 = (s1, pc)" by (cases "loop_head cfg now s0")
        have l1: "loops s1 = [pc0]"
          using loop_head_frame [OF lh] assms(1) False by (simp add: s0_def catch_error_def)
        have "s' = s1\<lparr>loops := pc_list pc\<rparr>"
          using s' Failed lh c suspend_single [OF l1] by (simp add: after_send_def)
        then show ?thesis
          using resume_known [OF lh] loop_head_frame [OF lh] assms(1) AwaitSendMail False
          by (simp add: known_promises_mset s0_def catch_error_def)
      qed
    qed
  qed
qed

lemma promises_ok_same:
  assumes "promises_ok s" and "mset (known_promises s') = mset (known_promises s)"
    and "promises s' = promises s"
  shows "promises_ok s'"
  using assms by (simp add: promises_ok_def)

lemma promises_ok_new:
  assumes "promises_ok s"
    and "mset (known_promises s') = add_mset (promises s) (mset (known_promises s))"
    and "promises s' = Suc (promises s)"
  shows "promises_ok s'"
  using assms by (simp add: promises_ok_def)

lemma promises_ok_step:
  assumes "single_loop s" and "promises_ok s" and "step cfg e s = Some s'"
  shows "promises_ok s'"
proof (cases "\<exists>now rnd mo. e = QueueEmail now rnd mo")
  case True
  then obtain now rnd mo where e: "e = QueueEmail now rnd mo" by blast
  then have "s' = snd (queueEmail cfg now rnd mo s)" using assms(3) by simp
  then show ?thesis using queueEmail_known [OF assms(1)] promises_ok_new [OF assms(2)] by blast
next
  case False
  then have ne: "\<forall>now rnd mo. e \<noteq> QueueEmail now rnd mo" by blast
  then have "loops s \<noteq> []" using assms(3) by (cases e) auto
  then obtain pc0 where "loops s = [pc0]" using single_loop_cases [OF assms(1)] by auto
  from resume_known_step [OF this assms(3) ne] promises_ok_same [OF assms(2)]
  show ?thesis by blast
qed

lemma rate_gate_step:
  assumes "single_loop s" and "rate_gate cfg s" and "step cfg e s = Some s'"
  shows "rate_gate cfg s'"
proof -
  from single_loop_cases [OF assms(1)]
  show ?thesis
  proof
    assume "loops s = [] \<and> \<not> isProcessingQueue s \<and> emailQueue s = []"
    with assms(2,3) show ?thesis
      by (cases e)
         (auto simp: rate_gate_def queueEmail_def
            processEmailQueue_def loop_head_def sendMail_def Let_def
            split: list.splits if_splits)
  next
    assume "\<exists>pc. loops s = [pc] \<and> isProcessingQueue s"
    then obtain pc where pc: "loops s = [pc]" "isProcessingQueue s" by blast
    with assms(2,3) show ?thesis
      by (cases e; cases pc)
         (auto simp: rate_gate_def queueEmail_def
            processEmailQueue_def loop_head_def
            sendMail_def Let_def suspend_def after_send_def catch_error_def send_fulfilled_def
            split: list.splits if_splits send_outcome.splits)
  qed
qed

lemma invariant_initial: "invariant cfg initial"
  by (simp add: invariant_def single_loop_def promises_ok_def known_promises_def in_flight_def
      rate_gate_def initial_def)

lemma invariant_step: "invariant cfg s \<Longrightarrow> step cfg e s = Some s' \<Longrightarrow> invariant cfg s'"
  unfolding invariant_def
  using single_loop_step promises_ok_step rate_gate_step by blast

lemma invariant_run: "invariant cfg s \<Longrightarrow> run cfg es s = Some s' \<Longrightarrow> invariant cfg s'"
proof (induction es arbitrary: s)
  case Nil
  then show ?case by simp
next
  case (Cons e es)
  then show ?case by (auto split: option.splits dest: invariant_step)
qed

lemma invariant_reachable: "run cfg es initial = Some s \<Longrightarrow> invariant cfg s"
  using invariant_run invariant_initial by blast

lemma loop_head_fst:
  "settlements (fst (loop_head cfg now s)) = settlements s"
  "lastEmailTime (fst (loop_head cfg now s)) = lastEmailTime s"
  "loops (fst (loop_head cfg now s)) = loops s"
  "promises (fst (loop_head cfg now s)) = promises s"
  using loop_head_frame [of cfg now s] by (cases "loop_head cfg now s"; simp)+

lemma retrying_iff:
  "retrying emailJob rest s \<longleftrightarrow>
     (loops s = [AwaitSendMail emailJob] \<and> emailQueue s = rest) \<or>
     (\<exists>due. loops s = [AwaitRateLimit emailJob due] \<and> emailQueue s = rest) \<or>
     (\<exists>due. loops s = [AwaitRetryDelay due] \<and> emailQueue s = emailJob # rest)"
  by (auto simp: retrying_def split: list.splits loop_pc.splits)

lemma only_job_refl: "only_job emailJob s s"
  by (simp add: only_job_def)

lemma only_job_trans:
  assumes "only_job emailJob s s'" and "only_job emailJob s' s''"
  shows "only_job emailJob s s''"
proof -
  obtain new where new: "sendLog s' = sendLog s @ new"
    using assms(1) by (metis only_job_def append_take_drop_id)
  obtain new' where new': "sendLog s'' = sendLog s' @ new'"
    using assms(2) by (metis only_job_def append_take_drop_id)
  show ?thesis using assms new new' by (auto simp: only_job_def)
qed

lemma retry_step:
  assumes "always_rate_limited tr" and "retrying emailJob rest s" and "loops s = pc # others"
  shows "\<exists>s'. step cfg (next_event tr clock s pc) s = Some s' \<and> retrying emailJob rest s' \<and>
              progress s < progress s' \<and> only_job emailJob s s'"
proof -
  from assms(2) consider
      (send) "loops s = [AwaitSendMail emailJob]" "emailQueue s = rest"
    | (rate) due where "loops s = [AwaitRateLimit emailJob due]" "emailQueue s = rest"
    | (retry) due where "loops s = [AwaitRetryDelay due]" "emailQueue s = emailJob # rest"
    unfolding retrying_iff by blast
  then show ?thesis
  proof cases
    case send
    then have pc: "pc = AwaitSendMail emailJob" using assms(3) by simp
    obtain outcome duration where tr: "tr (length (sendLog s)) emailJob = (outcome, duration)"
      by (cases "tr (length (sendLog s)) emailJob")
    then obtain error where e: "outcome = Failed error" "is_rate_limit_error error"
      using assms(1) unfolding always_rate_limited_def
      by (metis (mono_tags, lifting) case_prod_conv send_outcome.exhaust send_outcome.simps(5,6))
    show ?thesis using send pc tr e
      by (simp add: after_send_def catch_error_def suspend_def retrying_iff progress_def only_job_def)
  next
    case rate
    then have pc: "pc = AwaitRateLimit emailJob due" using assms(3) by simp
    show ?thesis using rate pc
      by (simp add: suspend_def sendMail_def retrying_iff progress_def only_job_def)
  next
    case retry
    then have pc: "pc = AwaitRetryDelay due" using assms(3) by simp
    show ?thesis using retry pc
      by (simp add: suspend_def sendMail_def loop_head_def Let_def retrying_iff progress_def
          only_job_def)
  qed
qed

lemma drain_retrying:
  assumes "always_rate_limited tr" and "retrying emailJob rest s"
  shows "\<exists>s'. drain cfg tr fuel clock s = Running s' \<and> retrying emailJob rest s' \<and>
              progress s + fuel \<le> progress s' \<and> only_job emailJob s s'"
  using assms(2)
proof (induction fuel arbitrary: s clock)
  case 0
  then have "loops s \<noteq> []" by (auto simp: retrying_iff)
  with 0 show ?case by (simp add: only_job_refl)
next
  case (Suc fuel)
  then obtain pc others where l: "loops s = pc # others" by (auto simp: retrying_iff)
  from retry_step [OF assms(1) Suc.prems l, of cfg clock]
  obtain s1 where s1: "step cfg (next_event tr clock s pc) s = Some s1" "retrying emailJob rest s1"
    "progress s < progress s1" "only_job emailJob s s1" by blast
  from Suc.IH [OF s1(2), of "event_time (next_event tr clock s pc)"]
  obtain s' where s': "drain cfg tr fuel (event_time (next_event tr clock s pc)) s1 = Running s'"
    "retrying emailJob rest s'" "progress s1 + fuel \<le> progress s'" "only_job emailJob s1 s'"
    by blast
  have "drain cfg tr (Suc fuel) clock s = Running s'" using l s1(1) s'(1) by simp
  moreover have "progress s + Suc fuel \<le> progress s'" using s1(3) s'(3) by simp
  ultimately show ?case using s'(2) only_job_trans [OF s1(4) s'(4)] by blast
qed

lemma run_two_queued: "run example_cfg two_queued initial = Some busy_state"
  by (simp add: example_defs model_defs)

lemma run_delivered:
  "run example_cfg (two_queued @ [SendMailSettled 0 5010 (Delivered ''m1'')]) initial
     = Some after_delivery"
  by (simp add: example_defs model_defs after_delivery_def)

lemma run_rejected:
  "run example_cfg (two_queued @ [SendMailSettled 0 5010 (Failed mailbox_unavailable)]) initial
     = Some after_rejection"
  by (simp add: example_defs model_defs after_rejection_def)

lemma run_waited:
  "run example_cfg (two_queued @ [SendMailSettled 0 5010 (Delivered ''m1''), TimerFired 0 6010])
     initial = Some after_wait"
  by (simp add: example_defs model_defs after_wait_def)

lemma lastEmailTime_step:
  assumes "step cfg e s = Some s'"
  shows "lastEmailTime s' = last_delivery [e] (lastEmailTime s)"
proof (cases e)
  case (QueueEmail now rnd mo)
  then show ?thesis using assms
    by (auto simp: queueEmail_def processEmailQueue_def Let_def
        split: prod.splits option.splits if_splits dest: loop_head_frame)
next
  case (TimerFired i now)
  then show ?thesis using assms
    by (auto simp: suspend_def sendMail_def
        split: if_splits loop_pc.splits prod.splits option.splits dest: loop_head_frame)
next
  case (SendMailSettled i now outcome)
  then show ?thesis using assms
    by (cases outcome)
       (auto simp: suspend_def after_send_def catch_error_def send_fulfilled_def
        split: if_splits loop_pc.splits prod.splits option.splits
        dest: loop_head_frame)
qed

lemma run_retry:
  "run example_cfg [SendMailSettled 0 5010 (Failed try_again_later), TimerFired 0 35010]
     busy_state = Some after_retry"
  by (simp add: example_defs model_defs after_retry_def)

lemma run_delivery:
  "run example_cfg [SendMailSettled 0 5010 (Delivered ''m1'')] busy_state = Some after_delivery"
  by (simp add: example_defs model_defs after_delivery_def)

lemma foldl_sort_fulfilled:
  "length ns = length vs \<Longrightarrow>
   foldl (sort_result recipients) (results, errors) (zip ns (map Fulfilled vs))
     = (results @ filter entry_success vs, errors @ filter (\<lambda>v. \<not> entry_success v) vs)"
proof (induction vs arbitrary: ns results errors)
  case Nil
  then show ?case by simp
next
  case (Cons v vs)
  then obtain n ns' where ns: "ns = n # ns'" "length ns' = length vs" by (cases ns) auto
  show ?case using Cons.IH [OF ns(2)] ns(1) by (simp add: sort_result_def)
qed

lemma callback_settled_eq:
  "callback_settled index outcome w =
     (if index < length (emailPromises w) \<and> emailPromises w ! index = None
      then Some (w\<lparr>emailPromises := (emailPromises w)
                    [index := Some (Fulfilled (entry_for (bulk_recipients w) index outcome))]\<rparr>)
      else None)"
  by (simp add: callback_settled_def entry_for_def)

lemma callbacks_settled_slots:
  assumes "distinct (map fst answers)"
    and "\<forall>i \<in> fst ` set answers. i < length (emailPromises w) \<and> emailPromises w ! i = None"
  shows "\<exists>w'. callbacks_settled answers w = Some w' \<and>
              bulk_recipients w' = bulk_recipients w \<and> bulk_messages w' = bulk_messages w \<and>
              length (emailPromises w') = length (emailPromises w) \<and>
              (\<forall>i < length (emailPromises w).
                 emailPromises w' ! i =
                   (case map_of answers i of
                      Some outcome \<Rightarrow> Some (Fulfilled (entry_for (bulk_recipients w) i outcome))
                    | None \<Rightarrow> emailPromises w ! i))"
  using assms
proof (induction answers arbitrary: w)
  case Nil
  then show ?case by simp
next
  case (Cons a answers)
  obtain index outcome where a: "a = (index, outcome)" by (cases a)
  define w1 where
    "w1 = w\<lparr>emailPromises := (emailPromises w)
              [index := Some (Fulfilled (entry_for (bulk_recipients w) index outcome))]\<rparr>"
  have ok: "index < length (emailPromises w)" "emailPromises w ! index = None"
    using Cons.prems(2) a by auto
  then have c: "callback_settled index outcome w = Some w1"
    by (simp add: callback_settled_eq w1_def)
  have fresh: "index \<notin> fst ` set answers" using Cons.prems(1) a by auto
  have d: "distinct (map fst answers)" using Cons.prems(1) by simp
  have p: "\<forall>i \<in> fst ` set answers. i < length (emailPromises w1) \<and> emailPromises w1 ! i = None"
  proof
    fix i assume i: "i \<in> fst ` set answers"
    then have "i \<noteq> index" using fresh by blast
    moreover have "i < length (emailPromises w) \<and> emailPromises w ! i = None"
      using Cons.prems(2) i by auto
    ultimately show "i < length (emailPromises w1) \<and> emailPromises w1 ! i = None"
      by (simp add: w1_def)
  qed
  from Cons.IH [OF d p] obtain w' where w':
    "callbacks_settled answers w1 = Some w'"
    "bulk_recipients w' = bulk_recipients w1" "bulk_messages w' = bulk_messages w1"
    "length (emailPromises w') = length (emailPromises w1)"
    "\<forall>i < length (emailPromises w1).
       emailPromises w' ! i =
         (case map_of answers i of
            Some outcome \<Rightarrow> Some (Fulfilled (entry_for (bulk_recipients w1) i outcome))
          | None \<Rightarrow> emailPromises w1 ! i)"
    by blast
  have none: "map_of answers index = None" using fresh by (simp add: map_of_eq_None_iff)
  have "\<forall>i < length (emailPromises w).
          emailPromises w' ! i =
            (case map_of (a # answers) i of
               Some outcome \<Rightarrow> Some (Fulfilled (entry_for (bulk_recipients w) i outcome))
             | None \<Rightarrow> emailPromises w ! i)"
  proof (intro allI impI)
    fix i assume i: "i < length (emailPromises w)"
    show "emailPromises w' ! i =
            (case map_of (a # answers) i of
               Some outcome \<Rightarrow> Some (Fulfilled (entry_for (bulk_recipients w) i outcome))
             | None \<Rightarrow> emailPromises w ! i)"
    proof (cases "i = index")
      case True
      then show ?thesis using w'(5) i none a by (simp add: w1_def)
    next
      case False
      then show ?thesis using w'(5) i a by (simp add: w1_def split: option.splits)
    qed
  qed
  then show ?case using a c w' by (simp add: w1_def)
qed

lemma filter_successes:
  assumes "\<forall>i \<in> set xs. map_of answers i \<noteq> None"
  shows "filter entry_success (map (\<lambda>i. entry_for recipients i (the (map_of answers i))) xs) =
           concat (map (\<lambda>i. case map_of answers i of
                               Some (Delivered messageId) \<Rightarrow>
                                 [BulkEntry i (recipients ! i) True messageId]
                             | _ \<Rightarrow> []) xs)"
  using assms
  by (induction xs) (auto simp: entry_for_def split: option.splits send_outcome.splits)

lemma filter_failures:
  assumes "\<forall>i \<in> set xs. map_of answers i \<noteq> None"
  shows "filter (\<lambda>v. \<not> entry_success v)
           (map (\<lambda>i. entry_for recipients i (the (map_of answers i))) xs) =
           concat (map (\<lambda>i. case map_of answers i of
                               Some (Failed error) \<Rightarrow>
                                 [BulkEntry i (recipients ! i) False (message error)]
                             | _ \<Rightarrow> []) xs)"
  using assms
  by (induction xs) (auto simp: entry_for_def split: option.splits send_outcome.splits)

lemma entry_key_entry_for: "entry_key (entry_for recipients i outcome) = (i, recipients ! i)"
  by (cases outcome) (simp_all add: entry_key_def entry_for_def)

lemma with_index_nth: "with_index xs = map (\<lambda>i. (i, xs ! i)) [0..<length xs]"
  by (rule nth_equalityI) (simp_all add: with_index_def)

lemma bulk_reply_settled:
  assumes "emailPromises w = map (\<lambda>i. Some (Fulfilled (f i))) [0..<n]"
  shows "bulk_reply w =
           Some \<lparr>status = 200,
                 payload = BulkReport (length (filter entry_success (map f [0..<n])))
                             (length (filter (\<lambda>v. \<not> entry_success v) (map f [0..<n])))
                             (filter entry_success (map f [0..<n]))
                             (filter (\<lambda>v. \<not> entry_success v) (map f [0..<n]))\<rparr>"
proof -
  have r: "map the (emailPromises w) = map Fulfilled (map f [0..<n])"
    using assms by (simp add: comp_def)
  have n: "None \<notin> set (emailPromises w)" using assms by auto
  have l: "length [0..<n] = length (map f [0..<n])" by simp
  have w: "with_index (map Fulfilled (map f [0..<n])) = zip [0..<n] (map Fulfilled (map f [0..<n]))"
    by (simp add: with_index_def)
  have "foldl (sort_result (bulk_recipients w)) ([], []) (with_index (map the (emailPromises w)))
          = (filter entry_success (map f [0..<n]), filter (\<lambda>v. \<not> entry_success v) (map f [0..<n]))"
    unfolding r w using foldl_sort_fulfilled [OF l, of "bulk_recipients w" "[]" "[]"]
    by (simp only: append_Nil)
  then show ?thesis using n by (simp add: bulk_reply_def Let_def)
qed

lemma bulk_begin_valid:
  assumes "destructurable body" and "field body ''recipients'' = JArr recipients"
    and "recipients \<noteq> []" and "truthy (field body ''subject'')"
    and "truthy (field body ''text'') \<or> truthy (field body ''html'')"
  shows "bulk_begin sender body =
           BulkAwaiting \<lparr>bulk_recipients = recipients,
                         bulk_messages = map (bulk_mailOptions sender body) recipients,
                         emailPromises = replicate (length recipients) None\<rparr>"
  using assms by (auto simp: bulk_begin_def)

lemma answers_cover:
  assumes "mset (map fst answers) = mset [0..<n]"
  shows "distinct (map fst answers)" and "fst ` set answers = {0..<n}"
proof -
  show "distinct (map fst answers)" using mset_eq_imp_distinct_iff [OF assms] by simp
  have "set (map fst answers) = set [0..<n]" using mset_eq_setD [OF assms] .
  then show "fst ` set answers = {0..<n}" by simp
qed

text \<open>
  The single-mail handlers on a body that can be destructured. A field that is not there
  makes \<open>missing_fields\<close> true; then both servers answer 400 with the message of the
  validation, the direct server hands nothing to the transport and the server with the queue
  leaves its state as it was. Otherwise the direct server hands the one message to the
  transport and answers 500 with the error's message when the transport fails, and the
  server with the queue queues the message under a new promise and awaits it.
\<close>

lemma send_email_with_body:
  assumes "destructurable body"
  shows "(field body ''to'' = Undefined \<or> field body ''subject'' = Undefined \<or>
            (field body ''text'' = Undefined \<and> field body ''html'' = Undefined)
            \<longrightarrow> missing_fields body) \<and>
         (missing_fields body \<longrightarrow>
            send_email sender transporter body =
              (\<lparr>status = 400,
                payload = ErrorOnly ''Missing required fields: to, subject, and either text or html''\<rparr>,
               []) \<and>
            queued_send_email sender cfg now rnd body s =
              (Inl \<lparr>status = 400,
                    payload = ErrorOnly ''Missing required fields: to, subject, and either text or html''\<rparr>,
               s)) \<and>
         (\<not> missing_fields body \<longrightarrow>
            snd (send_email sender transporter body) = [single_mailOptions sender body] \<and>
            (\<forall>error. transporter 0 (single_mailOptions sender body) = Failed error \<longrightarrow>
               fst (send_email sender transporter body) =
                 \<lparr>status = 500,
                  payload = ErrorDetails ''Failed to send email'' (Message (message error))\<rparr>) \<and>
            queued_send_email sender cfg now rnd body s =
              (Inr (promises s), snd (queueEmail cfg now rnd (single_mailOptions sender body) s)))"
  using assms
  by (auto simp: missing_fields_def send_email_def queued_send_email_def queueEmail_def Let_def
      split: send_outcome.splits prod.splits)

text \<open>
  When the send of the job in flight fails with an error that is not rate-limited, the
  handler that awaits the promise of the job, which had no reply yet, replies 500 with the
  message and the response code of the error.
\<close>

lemma rejected_job_answered_500:
  assumes "run cfg es initial = Some s" and "loops s = [AwaitSendMail emailJob]"
    and "\<not> is_rate_limit_error error"
  shows "queued_reply (promise emailJob) s = None \<and>
         (\<exists>s'. step cfg (SendMailSettled 0 now (Failed error)) s = Some s' \<and>
               queued_reply (promise emailJob) s' =
                 Some \<lparr>status = 500,
                       payload = ErrorDetailsCode ''Failed to queue email''
                                   (Message (message error)) (responseCode error)\<rparr>)"
proof -
  have "mset (known_promises s) = mset [0..<promises s]"
    using invariant_reachable [OF assms(1)] by (simp add: invariant_def promises_ok_def)
  then have "distinct (known_promises s)" using mset_eq_imp_distinct_iff by fastforce
  then have fresh: "promise emailJob \<notin> fst ` set (settlements s)"
    using assms(2) by (auto simp: known_promises_def in_flight_def)
  then have none: "map_of (settlements s) (promise emailJob) = None"
    by (simp add: map_of_eq_None_iff)
  define s' where "s' = suspend 0 (after_send cfg now emailJob (Failed error) s)"
  have st: "step cfg (SendMailSettled 0 now (Failed error)) s = Some s'"
    using assms(2) by (simp add: s'_def)
  have se: "settlements s' =
              settlements s @ [(promise emailJob, Rejected (message error) (responseCode error))]"
    using assms(3)
    by (cases "loop_head cfg now (fst (catch_error emailJob error s))")
       (auto simp: s'_def suspend_def after_send_def catch_error_def loop_head_fst
          split: option.splits dest: loop_head_frame)
  have "map_of (settlements s') (promise emailJob)
          = Some (Rejected (message error) (responseCode error))"
    unfolding se using none by (simp add: map_add_def)
  then show ?thesis using none st by (simp add: queued_reply_def)
qed

lemmas pf_defs = pf_enqueue_def pf_processEmailQueue_def pf_loop_head_def pf_sendMail_def Let_def
  pf_suspend_def pf_after_send_def

lemma pf_single_loop_cases:
  "pf_single_loop s \<Longrightarrow>
     (pf_loops s = [] \<and> \<not> pf_isProcessing s) \<or> (\<exists>pc. pf_loops s = [pc] \<and> pf_isProcessing s)"
  unfolding pf_single_loop_def by (cases "pf_loops s") auto

lemma pf_single_loop_resume:
  assumes "pf_single_loop s" and "pf_resume js_div env e s = Some s'"
  shows "pf_single_loop s'"
proof -
  from pf_single_loop_cases [OF assms(1)]
  show ?thesis
  proof
    assume "pf_loops s = [] \<and> \<not> pf_isProcessing s"
    with assms(2) show ?thesis
      by (cases e) (auto simp: pf_single_loop_def pf_defs split: list.splits if_splits)
  next
    assume "\<exists>pc. pf_loops s = [pc] \<and> pf_isProcessing s"
    then obtain pc where pc: "pf_loops s = [pc]" "pf_isProcessing s" by blast
    with assms(2) show ?thesis
      by (cases e; cases pc)
         (auto simp: pf_single_loop_def pf_defs split: list.splits if_splits send_outcome.splits)
  qed
qed

lemma pf_rate_gate_resume:
  assumes "pf_single_loop s" and "pf_rate_gate js_div env s"
    and "pf_resume js_div env e s = Some s'"
  shows "pf_rate_gate js_div env s'"
proof -
  from pf_single_loop_cases [OF assms(1)]
  show ?thesis
  proof
    assume "pf_loops s = [] \<and> \<not> pf_isProcessing s"
    with assms(2,3) show ?thesis
      by (cases e) (auto simp: pf_rate_gate_def pf_defs split: list.splits if_splits)
  next
    assume "\<exists>pc. pf_loops s = [pc] \<and> pf_isProcessing s"
    then obtain pc where pc: "pf_loops s = [pc]" "pf_isProcessing s" by blast
    with assms(2,3) show ?thesis
      by (cases e; cases pc)
         (auto simp: pf_rate_gate_def pf_defs split: list.splits if_splits send_outcome.splits)
  qed
qed

lemma pf_invariant_initial: "pf_invariant js_div env pf_initial"
  by (simp add: pf_invariant_def pf_single_loop_def pf_rate_gate_def pf_initial_def)

lemma pf_invariant_step:
  "pf_invariant js_div env s \<Longrightarrow> pf_step js_div env e s = Some s' \<Longrightarrow> pf_invariant js_div env s'"
  unfolding pf_invariant_def pf_step_def
  using pf_single_loop_resume pf_rate_gate_resume by (auto split: if_splits)

lemma pf_invariant_run:
  "pf_invariant js_div env s \<Longrightarrow> pf_run js_div env es s = Some s' \<Longrightarrow> pf_invariant js_div env s'"
proof (induction es arbitrary: s)
  case Nil
  then show ?case by simp
next
  case (Cons e es)
  then show ?case by (auto split: option.splits dest: pf_invariant_step)
qed

lemma pf_invariant_reachable:
  "pf_run js_div env es pf_initial = Some s \<Longrightarrow> pf_invariant js_div env s"
  using pf_invariant_run pf_invariant_initial by blast

lemma pf_run_example:
  "\<exists>p. pf_run exact_quotient installer_env two_posted_one_delivered pf_initial = Some p \<and>
       pf_calls p = [(5000, 0), (5610, 5010)]"
  by (simp add: two_posted_one_delivered_def pf_initial_def pf_step_def pf_defs installer_env_def
      example_body_def missing_fields_def minInterval_def RATE_LIMIT_def pf_RETRY_DELAY_def
      exact_quotient_def pf_calls_def)

section \<open>The claims\<close>

text \<open>
  C1, as stated: a job whose send fails with an error that is not rate-limited has its retry
  count incremented and is pushed to the back of the queue while the count is under 3; only
  at the bound is its handle rejected. The server with a promise per job does otherwise:
  two jobs are queued, the send of the first fails with a 550, and its promise is rejected
  at this first failure while the queue is left without it.
\<close>

theorem permanent_failure_rejected_at_once_counterexample:
  "map_option settlements
     (run example_cfg (two_queued @ [SendMailSettled 0 5010 (Failed mailbox_unavailable)]) initial)
     = Some [(0, Rejected ''550 mailbox unavailable'' (Some 550))] \<and>
   map_option emailQueue
     (run example_cfg (two_queued @ [SendMailSettled 0 5010 (Failed mailbox_unavailable)]) initial)
     = Some [] \<and>
   \<not> is_rate_limit_error mailbox_unavailable"
proof -
  have "\<not> is_rate_limit_error mailbox_unavailable"
    by (simp add: is_rate_limit_error_def mailbox_unavailable_def)
  then show ?thesis by (simp add: run_rejected after_rejection_def)
qed

text \<open>
  C1, amended. In the server with a promise per job there is no retry count: when the send
  of the job in flight fails with an error that is not rate-limited, the promise of the job
  is rejected at once with the message and the response code of the error, and the job is
  neither put back in the queue nor held any longer. In the server of the Postfix installer
  a failed send of an entry with fewer than 3 retries adds one to its retries and pushes it
  to the back of the queue; an entry with 3 retries is not pushed again, and that server has
  no handle to reject.
\<close>

theorem permanent_failure_rejects_or_counts:
  assumes "run cfg es initial = Some s" and "loops s = [AwaitSendMail emailJob]"
    and "\<not> is_rate_limit_error error"
  shows "(\<exists>s'. step cfg (SendMailSettled 0 now (Failed error)) s = Some s' \<and>
               settlements s' =
                 settlements s @ [(promise emailJob, Rejected (message error) (responseCode error))] \<and>
               emailJob \<notin> set (emailQueue s') \<and> emailJob \<notin> set (in_flight s')) \<and>
         fst (pf_after_send env t emailData (Failed error) p) =
           (if retries emailData < 3
            then p\<lparr>pf_emailQueue := pf_emailQueue p @ [emailData\<lparr>retries := retries emailData + 1\<rparr>]\<rparr>
            else p)"
proof -
  define s' where "s' = suspend 0 (after_send cfg now emailJob (Failed error) s)"
  have st: "step cfg (SendMailSettled 0 now (Failed error)) s = Some s'"
    using assms(2) by (simp add: s'_def)
  have se: "settlements s' =
              settlements s @ [(promise emailJob, Rejected (message error) (responseCode error))]"
    using assms(3)
    by (cases "loop_head cfg now (fst (catch_error emailJob error s))")
       (auto simp: s'_def suspend_def after_send_def catch_error_def loop_head_fst
          split: option.splits dest: loop_head_frame)
  have "invariant cfg s'" using invariant_step [OF invariant_reachable [OF assms(1)] st] .
  then have "mset (known_promises s') = mset [0..<promises s']"
    by (simp add: invariant_def promises_ok_def)
  then have "distinct (known_promises s')" using mset_eq_imp_distinct_iff by fastforce
  then have "promise emailJob \<notin> promise ` set (emailQueue s') \<and>
             promise emailJob \<notin> promise ` set (in_flight s')"
    using se by (auto simp: known_promises_def)
  then have "emailJob \<notin> set (emailQueue s') \<and> emailJob \<notin> set (in_flight s')" by blast
  moreover have "fst (pf_after_send env t emailData (Failed error) p) =
           (if retries emailData < 3
            then p\<lparr>pf_emailQueue := pf_emailQueue p @ [emailData\<lparr>retries := retries emailData + 1\<rparr>]\<rparr>
            else p)"
    by (simp add: pf_after_send_def)
  ultimately show ?thesis using st se by blast
qed

theorem permanent_failure_rejects_or_counts_witness:
  "run example_cfg two_queued initial = Some busy_state \<and>
   loops busy_state = [AwaitSendMail (example_job 0 5000)] \<and>
   \<not> is_rate_limit_error mailbox_unavailable \<and>
   step example_cfg (SendMailSettled 0 5010 (Failed mailbox_unavailable)) busy_state
     = Some after_rejection \<and>
   settlements after_rejection = [(0, Rejected ''550 mailbox unavailable'' (Some 550))] \<and>
   example_job 0 5000 \<notin> set (emailQueue after_rejection) \<and>
   fst (pf_after_send example_env 3000 (example_data 2) (Failed mailbox_unavailable)
          (example_pf_state [])) = example_pf_state [example_data 3] \<and>
   fst (pf_after_send example_env 3000 (example_data 3) (Failed mailbox_unavailable)
          (example_pf_state [])) = example_pf_state []"
proof -
  have l: "loops busy_state = [AwaitSendMail (example_job 0 5000)]" by (simp add: busy_state_def)
  have n: "\<not> is_rate_limit_error mailbox_unavailable"
    by (simp add: is_rate_limit_error_def mailbox_unavailable_def)
  have st: "step example_cfg (SendMailSettled 0 5010 (Failed mailbox_unavailable)) busy_state
     = Some after_rejection"
    by (simp add: example_defs model_defs after_rejection_def)
  from permanent_failure_rejects_or_counts [OF run_two_queued l n, of 5010 example_env 3000 "example_data 2" "example_pf_state []"]
       permanent_failure_rejects_or_counts [OF run_two_queued l n, of 5010 example_env 3000 "example_data 3" "example_pf_state []"]
  show ?thesis using run_two_queued l n st
    by (simp add: example_data_def example_pf_state_def after_rejection_def)
qed

text \<open>
  C2, as stated: any two consecutive calls of the transport by the drain loop are at least
  the minimum interval apart. In the server with a promise per job, with 1000 ms as the
  interval, two jobs are queued at 5000 and 5001; the first send starts at 5000 and fails at
  5010, and the second send starts at 5010.
\<close>

theorem consecutive_sends_counterexample:
  "map_option invocation_times
     (run example_cfg (two_queued @ [SendMailSettled 0 5010 (Failed mailbox_unavailable)]) initial)
     = Some [5000, 5010] \<and>
   5010 - 5000 < SMTP_RATE_LIMIT example_cfg"
proof -
  have "SMTP_RATE_LIMIT example_cfg = 1000" by (simp add: example_cfg_def)
  then show ?thesis by (simp add: run_rejected after_rejection_def invocation_times_def)
qed

text \<open>
  C2, amended. Before each send the loop compares the time since \<open>lastEmailTime\<close>, the
  time of the last successful send, with the minimum interval and, when it is less, suspends
  for the rest of the interval; so, with timers that do not fire early and a clock that does
  not read less than at the last successful send, every call of the transport, in every
  state either server reaches, is at least the interval after the last successful send
  (not after the previous call). The interval is \<open>SMTP_RATE_LIMIT\<close> ms itself in the server
  with a promise per job, and in the server of the Postfix installer the number the code
  computes as 60000 divided by \<open>RATE_LIMIT\<close>, which is never 0.
\<close>

theorem send_waits_for_rate_limit:
  assumes "run cfg es initial = Some s" and "pf_run js_div env pes pf_initial = Some p"
  shows "(\<forall>i \<in> set (sendLog s). SMTP_RATE_LIMIT cfg \<le> invokedAt i - lastSuccess i) \<and>
         (\<forall>emailJob rest. emailQueue s = emailJob # rest \<longrightarrow>
            loop_head cfg now s =
              (if now - lastEmailTime s < SMTP_RATE_LIMIT cfg
               then (s\<lparr>emailQueue := rest\<rparr>,
                     Some (AwaitRateLimit emailJob (lastEmailTime s + SMTP_RATE_LIMIT cfg)))
               else (sendMail now emailJob (s\<lparr>emailQueue := rest\<rparr>), Some (AwaitSendMail emailJob)))) \<and>
         RATE_LIMIT env \<noteq> 0 \<and>
         (\<forall>c \<in> set (pf_sendLog p).
            js_div 60000 (RATE_LIMIT env) \<le> rat_of_int (pf_invokedAt c - pf_lastSuccess c)) \<and>
         (\<forall>emailData rest. pf_emailQueue p = emailData # rest \<longrightarrow>
            pf_loop_head js_div env t p =
              (if rat_of_int (t - pf_lastEmailTime p) < js_div 60000 (RATE_LIMIT env)
               then (p\<lparr>pf_emailQueue := rest\<rparr>,
                     Some (PfAwaitRateLimit emailData
                             (rat_of_int (pf_lastEmailTime p) + js_div 60000 (RATE_LIMIT env))))
               else (pf_sendMail t emailData (p\<lparr>pf_emailQueue := rest\<rparr>),
                     Some (PfAwaitSendMail emailData))))"
proof -
  have "rate_gate cfg s" using invariant_reachable [OF assms(1)] by (simp add: invariant_def)
  then have 1: "\<forall>i \<in> set (sendLog s). SMTP_RATE_LIMIT cfg \<le> invokedAt i - lastSuccess i"
    by (simp add: rate_gate_def)
  have 2: "\<forall>emailJob rest. emailQueue s = emailJob # rest \<longrightarrow>
            loop_head cfg now s =
              (if now - lastEmailTime s < SMTP_RATE_LIMIT cfg
               then (s\<lparr>emailQueue := rest\<rparr>,
                     Some (AwaitRateLimit emailJob (lastEmailTime s + SMTP_RATE_LIMIT cfg)))
               else (sendMail now emailJob (s\<lparr>emailQueue := rest\<rparr>), Some (AwaitSendMail emailJob)))"
    by (simp add: loop_head_def Let_def)
  have 3: "RATE_LIMIT env \<noteq> 0"
    by (cases "env_SMTP_RATE_LIMIT env") (simp_all add: RATE_LIMIT_def)
  have "pf_rate_gate js_div env p"
    using pf_invariant_reachable [OF assms(2)] by (simp add: pf_invariant_def)
  then have 4: "\<forall>c \<in> set (pf_sendLog p).
            js_div 60000 (RATE_LIMIT env) \<le> rat_of_int (pf_invokedAt c - pf_lastSuccess c)"
    by (simp add: pf_rate_gate_def minInterval_def)
  have 5: "\<forall>emailData rest. pf_emailQueue p = emailData # rest \<longrightarrow>
            pf_loop_head js_div env t p =
              (if rat_of_int (t - pf_lastEmailTime p) < js_div 60000 (RATE_LIMIT env)
               then (p\<lparr>pf_emailQueue := rest\<rparr>,
                     Some (PfAwaitRateLimit emailData
                             (rat_of_int (pf_lastEmailTime p) + js_div 60000 (RATE_LIMIT env))))
               else (pf_sendMail t emailData (p\<lparr>pf_emailQueue := rest\<rparr>),
                     Some (PfAwaitSendMail emailData)))"
    by (simp add: pf_loop_head_def minInterval_def Let_def)
  from 1 2 3 4 5 show ?thesis by blast
qed

theorem send_waits_for_rate_limit_witness:
  "run example_cfg (two_queued @ [SendMailSettled 0 5010 (Delivered ''m1''), TimerFired 0 6010])
     initial = Some after_wait \<and>
   map invokedAt (sendLog after_wait) = [5000, 6010] \<and>
   map lastSuccess (sendLog after_wait) = [0, 5010] \<and>
   SMTP_RATE_LIMIT example_cfg \<le> 6010 - 5010 \<and>
   RATE_LIMIT installer_env = 100 \<and>
   exact_quotient 60000 (RATE_LIMIT installer_env) = 600 \<and>
   map_option pf_calls (pf_run exact_quotient installer_env two_posted_one_delivered pf_initial)
     = Some [(5000, 0), (5610, 5010)] \<and>
   exact_quotient 60000 (RATE_LIMIT installer_env) \<le> rat_of_int (5610 - 5010)"
proof -
  obtain p where p: "pf_run exact_quotient installer_env two_posted_one_delivered pf_initial = Some p"
    "pf_calls p = [(5000, 0), (5610, 5010)]"
    using pf_run_example by blast
  have r: "RATE_LIMIT installer_env = 100" by (simp add: RATE_LIMIT_def installer_env_def)
  have q: "exact_quotient 60000 (RATE_LIMIT installer_env) = 600"
    unfolding r by (simp add: exact_quotient_def)
  have a: "map invokedAt (sendLog after_wait) = [5000, 6010] \<and>
           map lastSuccess (sendLog after_wait) = [0, 5010] \<and>
           SMTP_RATE_LIMIT example_cfg \<le> 6010 - 5010"
    by (simp add: after_wait_def example_cfg_def)
  have last_in: "\<lparr>pf_invokedAt = 5610, pf_lastSuccess = 5010, pf_sent = pf_sent (last (pf_sendLog p))\<rparr>
                   \<in> set (pf_sendLog p)"
    using p(2) by (cases "pf_sendLog p" rule: rev_cases) (auto simp: pf_calls_def)
  from send_waits_for_rate_limit [OF run_waited p(1), of 5500 5500] last_in
  have "exact_quotient 60000 (RATE_LIMIT installer_env) \<le> rat_of_int (5610 - 5010)"
    by fastforce
  with run_waited a r q p show ?thesis by simp
qed

text \<open>
  C3. When the send of the job in flight fails with an error that has response code 421 or
  whose message contains "421" or "rate", the loop puts the same job, unchanged, back at
  the front of the queue and suspends for \<open>RETRY_DELAY\<close>: the timer cannot fire before, and
  when it fires the loop goes on by shifting that same job, with nothing settled and
  \<open>lastEmailTime\<close> as it was. The job carries no retry count that could be incremented.
\<close>

theorem rate_limited_failure_requeues_at_front:
  assumes "responseCode error = Some 421 \<or> str_includes (message error) ''421'' \<or>
           str_includes (message error) ''rate''"
    and "loops s = [AwaitSendMail emailJob]"
  shows "step cfg (SendMailSettled 0 now (Failed error)) s
           = Some (s\<lparr>emailQueue := emailJob # emailQueue s,
                     loops := [AwaitRetryDelay (now + RETRY_DELAY cfg)]\<rparr>) \<and>
         (t < now + RETRY_DELAY cfg \<longrightarrow>
            step cfg (TimerFired 0 t)
              (s\<lparr>emailQueue := emailJob # emailQueue s,
                 loops := [AwaitRetryDelay (now + RETRY_DELAY cfg)]\<rparr>) = None) \<and>
         (now + RETRY_DELAY cfg \<le> t \<longrightarrow>
            (\<exists>s2. step cfg (TimerFired 0 t)
                    (s\<lparr>emailQueue := emailJob # emailQueue s,
                       loops := [AwaitRetryDelay (now + RETRY_DELAY cfg)]\<rparr>) = Some s2 \<and>
                  in_flight s2 = [emailJob] \<and> emailQueue s2 = emailQueue s \<and>
                  settlements s2 = settlements s \<and> lastEmailTime s2 = lastEmailTime s))"
proof -
  have rl: "is_rate_limit_error error" using assms(1) by (simp add: is_rate_limit_error_def)
  have 1: "step cfg (SendMailSettled 0 now (Failed error)) s
           = Some (s\<lparr>emailQueue := emailJob # emailQueue s,
                     loops := [AwaitRetryDelay (now + RETRY_DELAY cfg)]\<rparr>)"
    using rl assms(2) by (simp add: after_send_def catch_error_def suspend_def)
  have 2: "t < now + RETRY_DELAY cfg \<longrightarrow>
            step cfg (TimerFired 0 t)
              (s\<lparr>emailQueue := emailJob # emailQueue s,
                 loops := [AwaitRetryDelay (now + RETRY_DELAY cfg)]\<rparr>) = None"
    by simp
  have 3: "now + RETRY_DELAY cfg \<le> t \<longrightarrow>
            (\<exists>s2. step cfg (TimerFired 0 t)
                    (s\<lparr>emailQueue := emailJob # emailQueue s,
                       loops := [AwaitRetryDelay (now + RETRY_DELAY cfg)]\<rparr>) = Some s2 \<and>
                  in_flight s2 = [emailJob] \<and> emailQueue s2 = emailQueue s \<and>
                  settlements s2 = settlements s \<and> lastEmailTime s2 = lastEmailTime s)"
    by (simp add: loop_head_def Let_def suspend_def sendMail_def in_flight_def)
  from 1 2 3 show ?thesis by blast
qed

theorem rate_limited_failure_requeues_at_front_witness:
  "responseCode try_again_later = Some 421 \<and>
   loops busy_state = [AwaitSendMail (example_job 0 5000)] \<and>
   step example_cfg (SendMailSettled 0 5010 (Failed try_again_later)) busy_state
     = Some (busy_state\<lparr>emailQueue := [example_job 0 5000, example_job 1 5001],
                        loops := [AwaitRetryDelay 35010]\<rparr>) \<and>
   step example_cfg (TimerFired 0 6000)
     (busy_state\<lparr>emailQueue := [example_job 0 5000, example_job 1 5001],
                 loops := [AwaitRetryDelay 35010]\<rparr>) = None \<and>
   step example_cfg (TimerFired 0 35010)
     (busy_state\<lparr>emailQueue := [example_job 0 5000, example_job 1 5001],
                 loops := [AwaitRetryDelay 35010]\<rparr>) = Some after_retry \<and>
   in_flight after_retry = [example_job 0 5000] \<and>
   emailQueue after_retry = emailQueue busy_state \<and>
   settlements after_retry = settlements busy_state"
proof -
  have c: "responseCode try_again_later = Some 421 \<or>
           str_includes (message try_again_later) ''421'' \<or>
           str_includes (message try_again_later) ''rate''"
    by (simp add: try_again_later_def)
  have l: "loops busy_state = [AwaitSendMail (example_job 0 5000)]" by (simp add: busy_state_def)
  have r: "RETRY_DELAY example_cfg = 30000" by (simp add: example_cfg_def)
  have q: "busy_state\<lparr>emailQueue := example_job 0 5000 # emailQueue busy_state,
                       loops := [AwaitRetryDelay (5010 + 30000)]\<rparr>
             = busy_state\<lparr>emailQueue := [example_job 0 5000, example_job 1 5001],
                          loops := [AwaitRetryDelay 35010]\<rparr>"
    by (simp add: busy_state_def)
  have e: "step example_cfg (TimerFired 0 35010)
     (busy_state\<lparr>emailQueue := [example_job 0 5000, example_job 1 5001],
                 loops := [AwaitRetryDelay 35010]\<rparr>) = Some after_retry"
    by (simp add: example_defs model_defs after_retry_def)
  have a: "in_flight after_retry = [example_job 0 5000] \<and>
           emailQueue after_retry = emailQueue busy_state \<and>
           settlements after_retry = settlements busy_state"
    by (simp add: after_retry_def busy_state_def in_flight_def)
  from rate_limited_failure_requeues_at_front [OF c l, of example_cfg 5010 6000]
  have "step example_cfg (SendMailSettled 0 5010 (Failed try_again_later)) busy_state
          = Some (busy_state\<lparr>emailQueue := [example_job 0 5000, example_job 1 5001],
                             loops := [AwaitRetryDelay 35010]\<rparr>) \<and>
        step example_cfg (TimerFired 0 6000)
          (busy_state\<lparr>emailQueue := [example_job 0 5000, example_job 1 5001],
                      loops := [AwaitRetryDelay 35010]\<rparr>) = None"
    unfolding r q by simp
  with c l e a show ?thesis by (simp add: try_again_later_def)
qed



text \<open>
  C5. A request whose body is \<open>null\<close>, or that has no body, is missing \<open>to\<close> as much as
  any: the test of the validation holds of it. Both servers answer it 500 and not 400: the
  destructuring of the body throws before the validation is reached, and the \<open>catch\<close> that
  is there for a failed dispatch answers, with its own error text and the TypeError's
  message. Nothing is sent or queued.
\<close>

theorem null_body_answered_500:
  "missing_fields Null \<and> field Null ''to'' = Undefined \<and>
   send_email sender transporter Null =
     (\<lparr>status = 500, payload = ErrorDetails ''Failed to send email'' TypeErrorMessage\<rparr>, []) \<and>
   queued_send_email sender cfg now rnd Null s =
     (Inl \<lparr>status = 500,
           payload = ErrorDetailsCode ''Failed to queue email'' TypeErrorMessage None\<rparr>, s) \<and>
   missing_fields Undefined \<and>
   send_email sender transporter Undefined =
     (\<lparr>status = 500, payload = ErrorDetails ''Failed to send email'' TypeErrorMessage\<rparr>, []) \<and>
   queued_send_email sender cfg now rnd Undefined s =
     (Inl \<lparr>status = 500,
           payload = ErrorDetailsCode ''Failed to queue email'' TypeErrorMessage None\<rparr>, s)"
  by (simp add: missing_fields_def send_email_def queued_send_email_def)

theorem null_body_answered_500_witness:
  "status (fst (send_email (JStr ''me@example.com'') (\<lambda>n m. Delivered ''m1'') Null)) = 500 \<and>
   snd (send_email (JStr ''me@example.com'') (\<lambda>n m. Delivered ''m1'') Null) = [] \<and>
   queued_send_email (JStr ''me@example.com'') example_cfg 5002 0 Null busy_state =
     (Inl \<lparr>status = 500,
           payload = ErrorDetailsCode ''Failed to queue email'' TypeErrorMessage None\<rparr>,
      busy_state) \<and>
   status (fst (send_email (JStr ''me@example.com'') (\<lambda>n m. Delivered ''m1'') Undefined)) = 500"
  using null_body_answered_500
    [of "JStr ''me@example.com''" "\<lambda>n m. Delivered ''m1''" example_cfg 5002 0 busy_state]
  by simp

text \<open>
  C6. In every state the server reaches, \<open>GET /queue-status\<close> answers with the length of
  \<open>emailQueue\<close>, the flag, \<open>lastEmailTime\<close> and the rate limit. Every promise created is
  that of exactly one job that is queued, in flight or settled, so \<open>queueLength\<close> is the
  number of jobs created less those settled and those in flight, and no job in flight is in
  the queue.
\<close>

theorem queue_status_counts_pending:
  assumes "run cfg es initial = Some s"
  shows "queue_status cfg s =
           \<lparr>queueLength = length (emailQueue s), isProcessing = isProcessingQueue s,
            reportedLastEmailTime = lastEmailTime s, rateLimitMs = SMTP_RATE_LIMIT cfg\<rparr> \<and>
         queueLength (queue_status cfg s) + length (in_flight s) + length (settlements s)
           = promises s \<and>
         set (in_flight s) \<inter> set (emailQueue s) = {}"
proof -
  have ok: "mset (known_promises s) = mset [0..<promises s]"
    using invariant_reachable [OF assms] by (simp add: invariant_def promises_ok_def)
  then have "size (mset (known_promises s)) = size (mset [0..<promises s])" by simp
  then have count: "length (emailQueue s) + length (in_flight s) + length (settlements s) = promises s"
    by (simp add: known_promises_def)
  have "distinct (known_promises s)"
    using mset_eq_imp_distinct_iff [OF ok] by simp
  then have "set (map promise (emailQueue s)) \<inter> set (map promise (in_flight s)) = {}"
    by (auto simp: known_promises_def)
  then have "set (in_flight s) \<inter> set (emailQueue s) = {}" by auto
  with count show ?thesis by (simp add: queue_status_def)
qed

theorem queue_status_counts_pending_witness:
  "run example_cfg two_queued initial = Some busy_state \<and>
   queueLength (queue_status example_cfg busy_state) = 1 \<and>
   in_flight busy_state = [example_job 0 5000] \<and>
   example_job 0 5000 \<notin> set (emailQueue busy_state) \<and>
   promises busy_state = 2"
  using queue_status_counts_pending [OF run_two_queued] run_two_queued
  by (simp add: busy_state_def in_flight_def queue_status_def example_job_def)

text \<open>
  C7. For a request with a body whose \<open>recipients\<close> is a non-empty array, with a subject
  and a text or html, and for the transport's answers coming in any order, one per call:
  the handler hands one message per recipient straight to \<open>transporter.sendMail\<close>, the
  message at each index addressed to the recipient at that index, all of them before it
  looks at any answer and with no queue, flag or wait between them; it replies nothing
  while an answer is missing. Once every call is answered it replies 200; \<open>results\<close> holds,
  in the order of the recipients, the entry of each recipient whose send was delivered, with
  the transport's \<open>messageId\<close>, and \<open>errors\<close> the entry of each recipient whose send failed,
  with the error's message; \<open>totalSent\<close> and \<open>totalErrors\<close> are their lengths, which add up
  to the number of recipients, and every recipient, by index, is in exactly one entry.
\<close>

theorem bulk_report_accounts_for_every_recipient:
  assumes "destructurable body" and "field body ''recipients'' = JArr recipients"
    and "recipients \<noteq> []" and "truthy (field body ''subject'')"
    and "truthy (field body ''text'') \<or> truthy (field body ''html'')"
    and "mset (map fst answers) = mset [0..<length recipients]"
  shows "\<exists>w w' results errors.
           bulk_begin sender body = BulkAwaiting w \<and>
           bulk_messages w =
             map (\<lambda>recipient.
                    \<lparr>mail_from = js_or (field body ''from'') sender, mail_to = Plain recipient,
                     mail_subject = field body ''subject'', mail_text = field body ''text'',
                     mail_html = field body ''html''\<rparr>) recipients \<and>
           emailPromises w = replicate (length recipients) None \<and>
           (\<forall>k < length answers.
              \<exists>w''. callbacks_settled (take k answers) w = Some w'' \<and> bulk_reply w'' = None) \<and>
           callbacks_settled answers w = Some w' \<and>
           results =
             concat (map (\<lambda>i. case map_of answers i of
                                 Some (Delivered messageId) \<Rightarrow>
                                   [BulkEntry i (recipients ! i) True messageId]
                               | _ \<Rightarrow> []) [0..<length recipients]) \<and>
           errors =
             concat (map (\<lambda>i. case map_of answers i of
                                 Some (Failed error) \<Rightarrow>
                                   [BulkEntry i (recipients ! i) False (message error)]
                               | _ \<Rightarrow> []) [0..<length recipients]) \<and>
           bulk_reply w' =
             Some \<lparr>status = 200,
                   payload = BulkReport (length results) (length errors) results errors\<rparr> \<and>
           length results + length errors = length recipients \<and>
           mset (map entry_key (results @ errors)) = mset (with_index recipients) \<and>
           distinct (map entry_index (results @ errors))"
proof -
  let ?n = "length recipients"
  define w where
    "w = \<lparr>bulk_recipients = recipients,
          bulk_messages = map (bulk_mailOptions sender body) recipients,
          emailPromises = replicate ?n None\<rparr>"
  define f where "f = (\<lambda>i. entry_for recipients i (the (map_of answers i)))"
  define results where "results = filter entry_success (map f [0..<?n])"
  define errors where "errors = filter (\<lambda>v. \<not> entry_success v) (map f [0..<?n])"
  have b: "bulk_begin sender body = BulkAwaiting w"
    using bulk_begin_valid [OF assms(1-5)] by (simp add: w_def)
  have msgs: "bulk_messages w =
             map (\<lambda>recipient.
                    \<lparr>mail_from = js_or (field body ''from'') sender, mail_to = Plain recipient,
                     mail_subject = field body ''subject'', mail_text = field body ''text'',
                     mail_html = field body ''html''\<rparr>) recipients"
    by (simp add: w_def bulk_mailOptions_def)
  have slots0: "emailPromises w = replicate ?n None" by (simp add: w_def)
  have d: "distinct (map fst answers)" and cover: "fst ` set answers = {0..<?n}"
    using answers_cover [OF assms(6)] by auto
  have pending: "\<forall>i \<in> fst ` set answers. i < length (emailPromises w) \<and> emailPromises w ! i = None"
    using cover by (auto simp: w_def)
  have wr: "bulk_recipients w = recipients" and wl: "length (emailPromises w) = ?n"
    by (simp_all add: w_def)
  from callbacks_settled_slots [OF d pending] obtain w' where w0:
    "callbacks_settled answers w = Some w'"
    "length (emailPromises w') = length (emailPromises w)"
    "\<forall>i < length (emailPromises w). emailPromises w' ! i =
        (case map_of answers i of
           Some outcome \<Rightarrow> Some (Fulfilled (entry_for (bulk_recipients w) i outcome))
         | None \<Rightarrow> emailPromises w ! i)"
    by blast
  have w': "callbacks_settled answers w = Some w'" "True"
    "length (emailPromises w') = ?n"
    "\<forall>i < ?n. emailPromises w' ! i =
        (case map_of answers i of
           Some outcome \<Rightarrow> Some (Fulfilled (entry_for recipients i outcome))
         | None \<Rightarrow> emailPromises w ! i)"
    using w0 unfolding wr wl by simp_all
  have answered: "\<forall>i < ?n. map_of answers i \<noteq> None"
    using cover by (auto simp: map_of_eq_None_iff)
  have "emailPromises w' = map (\<lambda>i. Some (Fulfilled (f i))) [0..<?n]"
  proof (rule nth_equalityI)
    show "length (emailPromises w') = length (map (\<lambda>i. Some (Fulfilled (f i))) [0..<?n])"
      using w'(3) by simp
  next
    fix i assume "i < length (emailPromises w')"
    then have i: "i < ?n" using w'(3) by simp
    then obtain outcome where "map_of answers i = Some outcome" using answered by auto
    then show "emailPromises w' ! i = map (\<lambda>i. Some (Fulfilled (f i))) [0..<?n] ! i"
      using w'(4) i by (simp add: f_def)
  qed
  from bulk_reply_settled [OF this]
  have reply: "bulk_reply w' =
             Some \<lparr>status = 200,
                   payload = BulkReport (length results) (length errors) results errors\<rparr>"
    by (simp add: results_def errors_def)
  have all: "\<forall>i \<in> set [0..<?n]. map_of answers i \<noteq> None" using answered by simp
  have r: "results =
             concat (map (\<lambda>i. case map_of answers i of
                                 Some (Delivered messageId) \<Rightarrow>
                                   [BulkEntry i (recipients ! i) True messageId]
                               | _ \<Rightarrow> []) [0..<?n])"
    unfolding results_def f_def by (rule filter_successes [OF all])
  have e: "errors =
             concat (map (\<lambda>i. case map_of answers i of
                                 Some (Failed error) \<Rightarrow>
                                   [BulkEntry i (recipients ! i) False (message error)]
                               | _ \<Rightarrow> []) [0..<?n])"
    unfolding errors_def f_def by (rule filter_failures [OF all])
  have m: "mset (results @ errors) = mset (map f [0..<?n])"
    by (simp add: results_def errors_def)
  have "size (mset (results @ errors)) = size (mset (map f [0..<?n]))" using m by simp
  then have len: "length results + length errors = ?n" by simp
  have keys: "map entry_key (map f [0..<?n]) = with_index recipients"
    by (simp add: f_def entry_key_entry_for with_index_nth comp_def)
  have "mset (map entry_key (results @ errors)) = mset (map entry_key (map f [0..<?n]))"
    using m by (metis mset_map)
  then have k: "mset (map entry_key (results @ errors)) = mset (with_index recipients)"
    unfolding keys .
  have "map entry_index (map f [0..<?n]) = map fst (map entry_key (map f [0..<?n]))"
    by (simp add: entry_key_def comp_def)
  also have "\<dots> = [0..<?n]" unfolding keys by (simp add: with_index_def)
  finally have "distinct (map entry_index (map f [0..<?n]))" by simp
  moreover have "mset (map entry_index (results @ errors)) = mset (map entry_index (map f [0..<?n]))"
    using m by (metis mset_map)
  ultimately have dist: "distinct (map entry_index (results @ errors))"
    using mset_eq_imp_distinct_iff by blast
  have waits: "\<forall>k < length answers.
              \<exists>w''. callbacks_settled (take k answers) w = Some w'' \<and> bulk_reply w'' = None"
  proof (intro allI impI)
    fix k assume k: "k < length answers"
    let ?pre = "take k answers"
    have dp: "distinct (map fst ?pre)" using distinct_take [OF d, of k] by (simp add: take_map)
    have sub: "set ?pre \<subseteq> set answers" by (rule set_take_subset)
    have "fst ` set ?pre \<subseteq> fst ` set answers" using sub by (rule image_mono)
    then have pp: "\<forall>i \<in> fst ` set ?pre. i < length (emailPromises w) \<and> emailPromises w ! i = None"
      using pending by (meson subsetD)
    from callbacks_settled_slots [OF dp pp] obtain w'' where w'':
      "callbacks_settled ?pre w = Some w''" "length (emailPromises w'') = length (emailPromises w)"
      "\<forall>i < length (emailPromises w). emailPromises w'' ! i =
          (case map_of ?pre i of
             Some outcome \<Rightarrow> Some (Fulfilled (entry_for (bulk_recipients w) i outcome))
           | None \<Rightarrow> emailPromises w ! i)"
      by blast
    define j where "j = fst (answers ! k)"
    have jin: "j \<in> fst ` set answers" using k by (auto simp: j_def)
    then have jn: "j < ?n" using cover by auto
    have "distinct (take k (map fst answers) @ drop k (map fst answers))" using d by simp
    then have disj: "set (take k (map fst answers)) \<inter> set (drop k (map fst answers)) = {}"
      by (simp only: distinct_append)
    have "drop k (map fst answers) = j # drop (Suc k) (map fst answers)"
      using k by (simp add: j_def Cons_nth_drop_Suc [symmetric])
    then have "j \<in> set (drop k (map fst answers))" by simp
    then have "j \<notin> set (take k (map fst answers))" using disj by blast
    then have "j \<notin> fst ` set ?pre" by (simp add: take_map)
    then have "map_of ?pre j = None" by (simp add: map_of_eq_None_iff)
    then have "emailPromises w'' ! j = None" using w''(3) jn by (simp add: w_def)
    moreover have "j < length (emailPromises w'')" using w''(2) jn by (simp add: w_def)
    ultimately have "None \<in> set (emailPromises w'')" by (metis nth_mem)
    then have "bulk_reply w'' = None" by (simp add: bulk_reply_def)
    with w''(1) show "\<exists>w''. callbacks_settled ?pre w = Some w'' \<and> bulk_reply w'' = None" by blast
  qed
  from b msgs slots0 waits w'(1) r e reply len k dist show ?thesis by blast
qed

theorem bulk_report_accounts_for_every_recipient_witness:
  "destructurable three_recipients \<and>
   field three_recipients ''recipients''
     = JArr [JStr ''a@example.org'', JStr ''b@example.org'', JStr ''a@example.org''] \<and>
   truthy (field three_recipients ''subject'') \<and> truthy (field three_recipients ''text'') \<and>
   mset (map fst last_answers_first) = mset [0..<3] \<and>
   bulk_begin Undefined three_recipients = BulkAwaiting three_waiting \<and>
   map_option bulk_reply (callbacks_settled (take 2 last_answers_first) three_waiting)
     = Some None \<and>
   map_option bulk_reply (callbacks_settled last_answers_first three_waiting) =
     Some (Some \<lparr>status = 200,
                 payload = BulkReport 2 1
                   [BulkEntry 0 (JStr ''a@example.org'') True ''m0'',
                    BulkEntry 2 (JStr ''a@example.org'') True ''m2'']
                   [BulkEntry 1 (JStr ''b@example.org'') False ''550 mailbox unavailable'']\<rparr>)"
proof -
  let ?rs = "[JStr ''a@example.org'', JStr ''b@example.org'', JStr ''a@example.org'']"
  have d: "destructurable three_recipients" by (simp add: three_recipients_def)
  have r: "field three_recipients ''recipients'' = JArr ?rs" by (simp add: three_recipients_def)
  have ne: "?rs \<noteq> []" by simp
  have su: "truthy (field three_recipients ''subject'')" by (simp add: three_recipients_def)
  have te: "truthy (field three_recipients ''text'')" by (simp add: three_recipients_def)
  have te': "truthy (field three_recipients ''text'') \<or> truthy (field three_recipients ''html'')"
    using te by simp
  have u: "[0..<3] = [0, 1, 2]" by (simp add: upt_rec)
  have ms: "mset (map fst last_answers_first) = mset [0..<3]"
    unfolding u by (simp add: last_answers_first_def)
  have u': "[0..<length ?rs] = [0, 1, 2]" by (simp add: upt_rec)
  have ms': "mset (map fst last_answers_first) = mset [0..<length ?rs]"
    unfolding u' by (simp add: last_answers_first_def)
  have b: "bulk_begin Undefined three_recipients = BulkAwaiting three_waiting"
    by (simp add: bulk_begin_def three_recipients_def three_waiting_def bulk_mailOptions_def
        js_or_def)
  have p: "map_option bulk_reply (callbacks_settled (take 2 last_answers_first) three_waiting)
     = Some None"
    by (simp add: last_answers_first_def three_waiting_def callback_settled_def bulk_reply_def)
  from bulk_report_accounts_for_every_recipient [OF d r ne su te' ms', of Undefined]
  have "\<exists>w'. callbacks_settled last_answers_first three_waiting = Some w' \<and>
         bulk_reply w' =
           Some \<lparr>status = 200,
                 payload = BulkReport 2 1
                   [BulkEntry 0 (JStr ''a@example.org'') True ''m0'',
                    BulkEntry 2 (JStr ''a@example.org'') True ''m2'']
                   [BulkEntry 1 (JStr ''b@example.org'') False ''550 mailbox unavailable'']\<rparr>"
    unfolding b u' by (auto simp: last_answers_first_def mailbox_unavailable_def)
  then have f: "map_option bulk_reply (callbacks_settled last_answers_first three_waiting) =
     Some (Some \<lparr>status = 200,
                 payload = BulkReport 2 1
                   [BulkEntry 0 (JStr ''a@example.org'') True ''m0'',
                    BulkEntry 2 (JStr ''a@example.org'') True ''m2'']
                   [BulkEntry 1 (JStr ''b@example.org'') False ''550 mailbox unavailable'']\<rparr>)"
    by auto
  from d r su te ms b p f show ?thesis by blast
qed

text \<open>
  C8. Over any events the server goes through, \<open>lastEmailTime\<close> ends as the time of the
  last send that settled with a delivery, and as it began when there was none: a send that
  fails, rate-limited or not, a timer and a call of \<open>queueEmail\<close> leave it as it was. It is
  the value the loop subtracts from \<open>Date.now()\<close> before each send.
\<close>

theorem lastEmailTime_only_on_success:
  assumes "run cfg es s = Some s'"
  shows "lastEmailTime s' = last_delivery es (lastEmailTime s)"
  using assms
proof (induction es arbitrary: s)
  case Nil
  then show ?case by simp
next
  case (Cons e es)
  then obtain s1 where s1: "step cfg e s = Some s1" "run cfg es s1 = Some s'"
    by (auto split: option.splits)
  have "lastEmailTime s' = last_delivery es (lastEmailTime s1)" using Cons.IH [OF s1(2)] .
  also have "lastEmailTime s1 = last_delivery [e] (lastEmailTime s)" using lastEmailTime_step [OF s1(1)] .
  finally show ?case by simp
qed

theorem lastEmailTime_only_on_success_witness:
  "run example_cfg [SendMailSettled 0 5010 (Failed try_again_later), TimerFired 0 35010]
     busy_state = Some after_retry \<and>
   lastEmailTime after_retry = lastEmailTime busy_state \<and>
   run example_cfg [SendMailSettled 0 5010 (Delivered ''m1'')] busy_state = Some after_delivery \<and>
   lastEmailTime after_delivery = 5010"
  using lastEmailTime_only_on_success [OF run_retry] lastEmailTime_only_on_success [OF run_delivery]
    run_retry run_delivery
  by simp

text \<open>
  C9. In every state the server reaches, no promise has been settled twice, and no job that
  is queued or in flight has a settled promise. When a send settles, a delivery resolves the
  promise of the job, a failure that is not rate-limited rejects it, and a rate-limited
  failure settles nothing and puts the job back at the front of the queue.
\<close>

theorem settled_at_most_once:
  assumes "run cfg es initial = Some s"
  shows "distinct (map fst (settlements s)) \<and>
         (\<forall>j \<in> set (emailQueue s) \<union> set (in_flight s). promise j \<notin> fst ` set (settlements s)) \<and>
         settlements (fst (after_send cfg now emailJob (Delivered messageId) s))
           = settlements s @ [(promise emailJob, Resolved messageId)] \<and>
         settlements (fst (after_send cfg now emailJob (Failed error) s))
           = (if is_rate_limit_error error then settlements s
              else settlements s @ [(promise emailJob, Rejected (message error) (responseCode error))]) \<and>
         (is_rate_limit_error error \<longrightarrow>
            emailQueue (fst (after_send cfg now emailJob (Failed error) s)) = emailJob # emailQueue s)"
proof -
  have ok: "mset (known_promises s) = mset [0..<promises s]"
    using invariant_reachable [OF assms] by (simp add: invariant_def promises_ok_def)
  have d: "distinct (known_promises s)"
    using mset_eq_imp_distinct_iff [OF ok] by simp
  then have 1: "distinct (map fst (settlements s))" by (simp add: known_promises_def)
  from d have 2: "\<forall>j \<in> set (emailQueue s) \<union> set (in_flight s). promise j \<notin> fst ` set (settlements s)"
    by (auto simp: known_promises_def)
  have 3: "settlements (fst (after_send cfg now emailJob (Delivered messageId) s))
           = settlements s @ [(promise emailJob, Resolved messageId)]"
    by (simp add: after_send_def send_fulfilled_def loop_head_fst)
  have 4: "settlements (fst (after_send cfg now emailJob (Failed error) s))
           = (if is_rate_limit_error error then settlements s
              else settlements s @ [(promise emailJob, Rejected (message error) (responseCode error))])"
    by (simp add: after_send_def catch_error_def loop_head_fst)
  have 5: "is_rate_limit_error error \<longrightarrow>
            emailQueue (fst (after_send cfg now emailJob (Failed error) s)) = emailJob # emailQueue s"
    by (simp add: after_send_def catch_error_def)
  from 1 2 3 4 5 show ?thesis by blast
qed

theorem settled_at_most_once_witness:
  "run example_cfg (two_queued @ [SendMailSettled 0 5010 (Delivered ''m1'')]) initial
     = Some after_delivery \<and>
   settlements after_delivery = [(0, Resolved ''m1'')] \<and>
   distinct (map fst (settlements after_delivery)) \<and>
   in_flight after_delivery = [example_job 1 5001] \<and>
   promise (example_job 1 5001) \<notin> fst ` set (settlements after_delivery) \<and>
   settlements (fst (after_send example_cfg 7000 (example_job 1 5001) (Failed try_again_later)
                       after_delivery)) = [(0, Resolved ''m1'')] \<and>
   settlements (fst (after_send example_cfg 7000 (example_job 1 5001) (Failed mailbox_unavailable)
                       after_delivery))
     = [(0, Resolved ''m1''), (1, Rejected ''550 mailbox unavailable'' (Some 550))]"
  using settled_at_most_once [OF run_delivered, of 7000 "example_job 1 5001" "''m2''" try_again_later]
    settled_at_most_once [OF run_delivered, of 7000 "example_job 1 5001" "''m2''" mailbox_unavailable]
    run_delivered
  by (simp add: after_delivery_def in_flight_def example_job_def is_rate_limit_error_def
      try_again_later_def mailbox_unavailable_def)

text \<open>
  C10. With a transport that answers every send with a rate-limited failure, and a send in
  flight, the loop has not returned after any number of resumptions: it is still running,
  has settled nothing, has called the transport again at least once in every three
  resumptions, and every one of these calls was for the same job, which is either held by
  the loop or at the front of the queue, before the jobs that were waiting. No count bounds
  these retries.
\<close>

theorem rate_limited_job_is_retried_forever:
  assumes "always_rate_limited tr" and "loops s = [AwaitSendMail emailJob]"
  shows "\<exists>s'. drain cfg tr fuel clock s = Running s' \<and>
              settlements s' = settlements s \<and>
              3 * length (sendLog s) + fuel \<le> 3 * length (sendLog s') + 2 \<and>
              (\<forall>i \<in> set (drop (length (sendLog s)) (sendLog s')). sentJob i = emailJob) \<and>
              (in_flight s' = [emailJob] \<and> emailQueue s' = emailQueue s \<or>
               in_flight s' = [] \<and> emailQueue s' = emailJob # emailQueue s)"
proof -
  have r: "retrying emailJob (emailQueue s) s" using assms(2) by (simp add: retrying_iff)
  from drain_retrying [OF assms(1) r, of cfg fuel clock]
  obtain s' where s': "drain cfg tr fuel clock s = Running s'" "retrying emailJob (emailQueue s) s'"
    "progress s + fuel \<le> progress s'" "only_job emailJob s s'" by blast
  have "progress s = 3 * length (sendLog s)" using assms(2) by (simp add: progress_def)
  moreover have "progress s' \<le> 3 * length (sendLog s') + 2"
    using s'(2) by (auto simp: retrying_iff progress_def)
  ultimately have "3 * length (sendLog s) + fuel \<le> 3 * length (sendLog s') + 2"
    using s'(3) by linarith
  moreover have "in_flight s' = [emailJob] \<and> emailQueue s' = emailQueue s \<or>
               in_flight s' = [] \<and> emailQueue s' = emailJob # emailQueue s"
    using s'(2) by (auto simp: retrying_iff in_flight_def)
  ultimately show ?thesis using s'(1,4) by (auto simp: only_job_def)
qed

theorem rate_limited_job_is_retried_forever_witness:
  "always_rate_limited busy_transport \<and>
   loops busy_state = [AwaitSendMail (example_job 0 5000)] \<and>
   (\<exists>s'. drain example_cfg busy_transport 100 5000 busy_state = Running s' \<and>
         settlements s' = [] \<and> 33 \<le> length (sendLog s'))"
proof -
  have a: "always_rate_limited busy_transport"
    by (simp add: always_rate_limited_def busy_transport_def is_rate_limit_error_def
        try_again_later_def)
  have l: "loops busy_state = [AwaitSendMail (example_job 0 5000)]"
    by (simp add: busy_state_def)
  from rate_limited_job_is_retried_forever [OF a l, of example_cfg 100 5000]
  obtain s' where "drain example_cfg busy_transport 100 5000 busy_state = Running s'"
    "settlements s' = settlements busy_state"
    "3 * length (sendLog busy_state) + 100 \<le> 3 * length (sendLog s') + 2" by blast
  then have "drain example_cfg busy_transport 100 5000 busy_state = Running s' \<and>
         settlements s' = [] \<and> 33 \<le> length (sendLog s')"
    by (simp add: busy_state_def)
  with a l show ?thesis by blast
qed

end
